theory Spec2Isabelle
  imports Main
begin

section \<open>Text as sequences of Unicode code points\<close>

text \<open>
  A Python \<^verbatim>\<open>str\<close> is a sequence of Unicode code points. The spider works on Cyrillic text,
  so a character is its code point (a natural number) and a string is a list of them.
  The Cyrillic letters get names by transliteration: \<open>c_a\<close> is U+0430, \<open>C_a\<close> is U+0410,
  \<open>c_yo\<close> is U+0451, \<open>C_yo\<close> is U+0401, and so on; \<open>sp\<close> is the space U+0020.
\<close>

type_synonym uchar = nat
type_synonym ustring = "uchar list"

abbreviation sp :: uchar where "sp \<equiv> 0x20"
abbreviation c_a :: uchar where "c_a \<equiv> 0x430"
abbreviation c_b :: uchar where "c_b \<equiv> 0x431"
abbreviation c_v :: uchar where "c_v \<equiv> 0x432"
abbreviation c_g :: uchar where "c_g \<equiv> 0x433"
abbreviation c_d :: uchar where "c_d \<equiv> 0x434"
abbreviation c_e :: uchar where "c_e \<equiv> 0x435"
abbreviation c_yo :: uchar where "c_yo \<equiv> 0x451"
abbreviation c_zh :: uchar where "c_zh \<equiv> 0x436"
abbreviation c_z :: uchar where "c_z \<equiv> 0x437"
abbreviation c_i :: uchar where "c_i \<equiv> 0x438"
abbreviation c_j :: uchar where "c_j \<equiv> 0x439"
abbreviation c_k :: uchar where "c_k \<equiv> 0x43A"
abbreviation c_l :: uchar where "c_l \<equiv> 0x43B"
abbreviation c_m :: uchar where "c_m \<equiv> 0x43C"
abbreviation c_n :: uchar where "c_n \<equiv> 0x43D"
abbreviation c_o :: uchar where "c_o \<equiv> 0x43E"
abbreviation c_p :: uchar where "c_p \<equiv> 0x43F"
abbreviation c_r :: uchar where "c_r \<equiv> 0x440"
abbreviation c_s :: uchar where "c_s \<equiv> 0x441"
abbreviation c_t :: uchar where "c_t \<equiv> 0x442"
abbreviation c_u :: uchar where "c_u \<equiv> 0x443"
abbreviation c_f :: uchar where "c_f \<equiv> 0x444"
abbreviation c_h :: uchar where "c_h \<equiv> 0x445"
abbreviation c_ts :: uchar where "c_ts \<equiv> 0x446"
abbreviation c_ch :: uchar where "c_ch \<equiv> 0x447"
abbreviation c_sh :: uchar where "c_sh \<equiv> 0x448"
abbreviation c_sch :: uchar where "c_sch \<equiv> 0x449"
abbreviation c_hard :: uchar where "c_hard \<equiv> 0x44A"
abbreviation c_y :: uchar where "c_y \<equiv> 0x44B"
abbreviation c_soft :: uchar where "c_soft \<equiv> 0x44C"
abbreviation c_eh :: uchar where "c_eh \<equiv> 0x44D"
abbreviation c_yu :: uchar where "c_yu \<equiv> 0x44E"
abbreviation c_ya :: uchar where "c_ya \<equiv> 0x44F"
abbreviation C_a :: uchar where "C_a \<equiv> 0x410"
abbreviation C_b :: uchar where "C_b \<equiv> 0x411"
abbreviation C_v :: uchar where "C_v \<equiv> 0x412"
abbreviation C_g :: uchar where "C_g \<equiv> 0x413"
abbreviation C_d :: uchar where "C_d \<equiv> 0x414"
abbreviation C_e :: uchar where "C_e \<equiv> 0x415"
abbreviation C_yo :: uchar where "C_yo \<equiv> 0x401"
abbreviation C_zh :: uchar where "C_zh \<equiv> 0x416"
abbreviation C_z :: uchar where "C_z \<equiv> 0x417"
abbreviation C_i :: uchar where "C_i \<equiv> 0x418"
abbreviation C_j :: uchar where "C_j \<equiv> 0x419"
abbreviation C_k :: uchar where "C_k \<equiv> 0x41A"
abbreviation C_l :: uchar where "C_l \<equiv> 0x41B"
abbreviation C_m :: uchar where "C_m \<equiv> 0x41C"
abbreviation C_n :: uchar where "C_n \<equiv> 0x41D"
abbreviation C_o :: uchar where "C_o \<equiv> 0x41E"
abbreviation C_p :: uchar where "C_p \<equiv> 0x41F"
abbreviation C_r :: uchar where "C_r \<equiv> 0x420"
abbreviation C_s :: uchar where "C_s \<equiv> 0x421"
abbreviation C_t :: uchar where "C_t \<equiv> 0x422"
abbreviation C_u :: uchar where "C_u \<equiv> 0x423"
abbreviation C_f :: uchar where "C_f \<equiv> 0x424"
abbreviation C_h :: uchar where "C_h \<equiv> 0x425"
abbreviation C_ts :: uchar where "C_ts \<equiv> 0x426"
abbreviation C_ch :: uchar where "C_ch \<equiv> 0x427"
abbreviation C_sh :: uchar where "C_sh \<equiv> 0x428"
abbreviation C_sch :: uchar where "C_sch \<equiv> 0x429"
abbreviation C_hard :: uchar where "C_hard \<equiv> 0x42A"
abbreviation C_y :: uchar where "C_y \<equiv> 0x42B"
abbreviation C_soft :: uchar where "C_soft \<equiv> 0x42C"
abbreviation C_eh :: uchar where "C_eh \<equiv> 0x42D"
abbreviation C_yu :: uchar where "C_yu \<equiv> 0x42E"
abbreviation C_ya :: uchar where "C_ya \<equiv> 0x42F"

text \<open>ASCII text embedded into code points (used for URLs and markup fragments).\<close>

definition asc :: "string \<Rightarrow> ustring" where
  "asc s = map of_char s"

subsection \<open>The string operations of Python the spider uses\<close>

text \<open>\<^verbatim>\<open>s.startswith(p)\<close> and \<^verbatim>\<open>p in s\<close> (substring test).\<close>

fun startswith :: "ustring \<Rightarrow> ustring \<Rightarrow> bool" where
  "startswith s [] = True"
| "startswith [] (p # ps) = False"
| "startswith (c # s) (p # ps) = (c = p \<and> startswith s ps)"

fun contains :: "ustring \<Rightarrow> ustring \<Rightarrow> bool" where
  "contains [] p = (p = [])"
| "contains (c # s) p = (startswith (c # s) p \<or> contains s p)"

text \<open>
  The white space of \<^verbatim>\<open>str.strip\<close>, \<^verbatim>\<open>str.split\<close> and of \<^verbatim>\<open>\s\<close> in a pattern over \<^verbatim>\<open>str\<close>:
  the code points for which \<^verbatim>\<open>str.isspace\<close> holds.
\<close>

definition is_space :: "uchar \<Rightarrow> bool" where
  "is_space c \<longleftrightarrow>
     (0x9 \<le> c \<and> c \<le> 0xD) \<or> (0x1C \<le> c \<and> c \<le> 0x20) \<or> c = 0x85 \<or> c = 0xA0 \<or> c = 0x1680 \<or>
     (0x2000 \<le> c \<and> c \<le> 0x200A) \<or> c = 0x2028 \<or> c = 0x2029 \<or> c = 0x202F \<or> c = 0x205F \<or>
     c = 0x3000"

definition lstrip :: "ustring \<Rightarrow> ustring" where
  "lstrip s = dropWhile is_space s"

definition rstrip :: "ustring \<Rightarrow> ustring" where
  "rstrip s = rev (dropWhile is_space (rev s))"

definition strip :: "ustring \<Rightarrow> ustring" where
  "strip s = rstrip (lstrip s)"

text \<open>\<^verbatim>\<open>s.rstrip(chars)\<close>: drop the trailing characters that occur in \<open>chars\<close>.\<close>

definition rstrip_chars :: "ustring \<Rightarrow> ustring \<Rightarrow> ustring" where
  "rstrip_chars chars s = rev (dropWhile (\<lambda>c. c \<in> set chars) (rev s))"

text \<open>\<^verbatim>\<open>sep.join(parts)\<close>.\<close>

fun join :: "ustring \<Rightarrow> ustring list \<Rightarrow> ustring" where
  "join sep [] = []"
| "join sep [x] = x"
| "join sep (x # y # ys) = x @ sep @ join sep (y # ys)"

text \<open>Truthiness of an optional string: \<^verbatim>\<open>None\<close> and \<^verbatim>\<open>''\<close> are false.\<close>

fun truthy :: "ustring option \<Rightarrow> bool" where
  "truthy None = False"
| "truthy (Some s) = (s \<noteq> [])"

section \<open>Calendar dates\<close>

record datetime =
  dt_year :: int
  dt_month :: int
  dt_day :: int
  dt_hour :: int
  dt_minute :: int
  dt_second :: int
  dt_microsecond :: int

section \<open>The standard library as a parameter\<close>

text \<open>
  The parts of the Python library whose results depend on the Unicode tables or on the
  C library are not code of the spider. They are fields of a record that every function
  of the model takes as its first argument, so that each theorem holds for whatever these
  functions compute.
\<close>

text \<open>
  \<^item> \<open>py_lower\<close> is \<^verbatim>\<open>str.lower\<close>;
  \<^item> \<open>py_int\<close> is \<^verbatim>\<open>int\<close> on a string, \<open>None\<close> when it raises \<^verbatim>\<open>ValueError\<close>;
  \<^item> \<open>py_isdigit\<close> is the class \<^verbatim>\<open>\d\<close> of a pattern over \<^verbatim>\<open>str\<close> (the decimal digits of
    every script);
  \<^item> \<open>py_ci_eq k c\<close> says that the literal \<open>k\<close> of a pattern compiled with
    \<^verbatim>\<open>re.IGNORECASE\<close> matches the character \<open>c\<close>;
  \<^item> \<open>py_strptime s fmt\<close> is \<^verbatim>\<open>datetime.strptime\<close>, \<open>None\<close> when it raises \<^verbatim>\<open>ValueError\<close>;
  \<^item> \<open>py_urljoin\<close> is \<^verbatim>\<open>urllib.parse.urljoin\<close>;
  \<^item> \<open>py_isoformat\<close> is \<^verbatim>\<open>datetime.isoformat\<close>;
  \<^item> \<open>request_url_ok u\<close> says that \<^verbatim>\<open>scrapy.Request(url=u)\<close> accepts the URL; it raises
    \<^verbatim>\<open>ValueError\<close> for a URL without a scheme.
\<close>

record pylib =
  py_lower :: "ustring \<Rightarrow> ustring"
  py_int :: "ustring \<Rightarrow> int option"
  py_isdigit :: "uchar \<Rightarrow> bool"
  py_ci_eq :: "uchar \<Rightarrow> uchar \<Rightarrow> bool"
  py_strptime :: "ustring \<Rightarrow> string \<Rightarrow> datetime option"
  py_urljoin :: "ustring \<Rightarrow> ustring \<Rightarrow> ustring"
  py_isoformat :: "datetime \<Rightarrow> ustring"
  request_url_ok :: "ustring \<Rightarrow> bool"

section \<open>The spider's tables\<close>

text \<open>
  \<^verbatim>\<open>RELEVANT_CATEGORIES\<close>: prezident, politika, vlast', kadrovye resheniya, naznacheniya,
  ukaz, gosudarstvo.
\<close>

definition RELEVANT_CATEGORIES :: "ustring list" where
  "RELEVANT_CATEGORIES =
    [
     [c_p, c_r, c_e, c_z, c_i, c_d, c_e, c_n, c_t],
     [c_p, c_o, c_l, c_i, c_t, c_i, c_k, c_a],
     [c_v, c_l, c_a, c_s, c_t, c_soft],
     [c_k, c_a, c_d, c_r, c_o, c_v, c_y, c_e, sp, c_r, c_e, c_sh, c_e, c_n, c_i, c_ya],
     [c_n, c_a, c_z, c_n, c_a, c_ch, c_e, c_n, c_i, c_ya],
     [c_u, c_k, c_a, c_z],
     [c_g, c_o, c_s, c_u, c_d, c_a, c_r, c_s, c_t, c_v, c_o]]"

text \<open>
  \<^verbatim>\<open>APPOINTMENT_PATTERNS\<close>: prezident naznachil, ukazom prezidenta naznachen,
  prezident prinyal kadrovye resheniya, naznachen na dolzhnost', osvobozhden ot dolzhnosti,
  osvobozhdyon ot dolzhnosti, naznachena na dolzhnost', naznachen, naznachena, naznacheny,
  prisvoeno zvanie, prisvoen klass, naznachenie, kadrovye resheniya, peremeschenie,
  uvol'nenie, otstavka.
\<close>

definition APPOINTMENT_PATTERNS :: "ustring list" where
  "APPOINTMENT_PATTERNS =
    [
     [c_p, c_r, c_e, c_z, c_i, c_d, c_e, c_n, c_t, sp, c_n, c_a, c_z, c_n, c_a, c_ch, c_i, c_l],
     [c_u, c_k, c_a, c_z, c_o, c_m, sp, c_p, c_r, c_e, c_z, c_i, c_d, c_e, c_n, c_t, c_a, sp,
      c_n, c_a, c_z, c_n, c_a, c_ch, c_e, c_n],
     [c_p, c_r, c_e, c_z, c_i, c_d, c_e, c_n, c_t, sp, c_p, c_r, c_i, c_n, c_ya, c_l, sp, c_k,
      c_a, c_d, c_r, c_o, c_v, c_y, c_e, sp, c_r, c_e, c_sh, c_e, c_n, c_i, c_ya],
     [c_n, c_a, c_z, c_n, c_a, c_ch, c_e, c_n, sp, c_n, c_a, sp, c_d, c_o, c_l, c_zh, c_n, c_o,
      c_s, c_t, c_soft],
     [c_o, c_s, c_v, c_o, c_b, c_o, c_zh, c_d, c_e, c_n, sp, c_o, c_t, sp, c_d, c_o, c_l, c_zh,
      c_n, c_o, c_s, c_t, c_i],
     [c_o, c_s, c_v, c_o, c_b, c_o, c_zh, c_d, c_yo, c_n, sp, c_o, c_t, sp, c_d, c_o, c_l,
      c_zh, c_n, c_o, c_s, c_t, c_i],
     [c_n, c_a, c_z, c_n, c_a, c_ch, c_e, c_n, c_a, sp, c_n, c_a, sp, c_d, c_o, c_l, c_zh, c_n,
      c_o, c_s, c_t, c_soft],
     [c_n, c_a, c_z, c_n, c_a, c_ch, c_e, c_n],
     [c_n, c_a, c_z, c_n, c_a, c_ch, c_e, c_n, c_a],
     [c_n, c_a, c_z, c_n, c_a, c_ch, c_e, c_n, c_y],
     [c_p, c_r, c_i, c_s, c_v, c_o, c_e, c_n, c_o, sp, c_z, c_v, c_a, c_n, c_i, c_e],
     [c_p, c_r, c_i, c_s, c_v, c_o, c_e, c_n, sp, c_k, c_l, c_a, c_s, c_s],
     [c_n, c_a, c_z, c_n, c_a, c_ch, c_e, c_n, c_i, c_e],
     [c_k, c_a, c_d, c_r, c_o, c_v, c_y, c_e, sp, c_r, c_e, c_sh, c_e, c_n, c_i, c_ya],
     [c_p, c_e, c_r, c_e, c_m, c_e, c_sch, c_e, c_n, c_i, c_e],
     [c_u, c_v, c_o, c_l, c_soft, c_n, c_e, c_n, c_i, c_e],
     [c_o, c_t, c_s, c_t, c_a, c_v, c_k, c_a]]"

section \<open>The relevance classifier\<close>

text \<open>
  \<^verbatim>\<open>is_presidential_appointment\<close>: the text is lowered, then tested for one category and
  one appointment phrase.
\<close>

definition is_presidential_appointment :: "pylib \<Rightarrow> ustring \<Rightarrow> bool" where
  "is_presidential_appointment L text =
    (let text_lower = py_lower L text;
         has_category = list_ex (\<lambda>category. contains text_lower category) RELEVANT_CATEGORIES;
         has_appointment = list_ex (\<lambda>pattern. contains text_lower pattern) APPOINTMENT_PATTERNS
     in has_category \<and> has_appointment)"

section \<open>Regular expressions\<close>

text \<open>
  The patterns of the spider are values of a small datatype, and \<open>rmatch\<close> is a backtracking
  matcher in the manner of Python's \<^verbatim>\<open>re\<close>: it returns every way to match a pattern at the
  head of the input, in the order in which a backtracking matcher tries them, so the head
  of the list is the match that Python reports. \<open>Rep greedy r m n\<close> is \<^verbatim>\<open>r{m,n}\<close>
  (\<open>n = None\<close> for no upper bound), lazy when \<open>greedy\<close> is false; \<open>Grp k r\<close> is the
  capturing group number \<open>k\<close>. The first argument of \<open>rmatch\<close> says when a literal of the
  pattern matches a character of the text: equality, or the relation of \<^verbatim>\<open>re.IGNORECASE\<close>.
  A repetition goes on only after an iteration that consumed a character (in the patterns
  of the spider every repeated pattern consumes one).
\<close>

datatype regex =
    Eps
  | Lit uchar
  | Cls "uchar \<Rightarrow> bool"
  | Seq regex regex
  | Alt regex regex
  | Rep bool regex nat "nat option"
  | Grp nat regex

type_synonym caps = "nat \<rightharpoonup> ustring"

fun rdepth :: "regex \<Rightarrow> nat" where
  "rdepth Eps = 0"
| "rdepth (Lit k) = 0"
| "rdepth (Cls P) = 0"
| "rdepth (Seq r1 r2) = Suc (rdepth r1 + rdepth r2)"
| "rdepth (Alt r1 r2) = Suc (rdepth r1 + rdepth r2)"
| "rdepth (Rep g r m n) = Suc (rdepth r)"
| "rdepth (Grp k r) = Suc (rdepth r)"

function rmatch :: "(uchar \<Rightarrow> uchar \<Rightarrow> bool) \<Rightarrow> regex \<Rightarrow> caps \<Rightarrow> ustring \<Rightarrow> (caps \<times> ustring) list" where
  "rmatch ceq Eps cs s = [(cs, s)]"
| "rmatch ceq (Lit k) cs s =
     (case s of [] \<Rightarrow> [] | c # s' \<Rightarrow> if ceq k c then [(cs, s')] else [])"
| "rmatch ceq (Cls P) cs s =
     (case s of [] \<Rightarrow> [] | c # s' \<Rightarrow> if P c then [(cs, s')] else [])"
| "rmatch ceq (Seq r1 r2) cs s =
     concat (map (\<lambda>m. rmatch ceq r2 (fst m) (snd m)) (rmatch ceq r1 cs s))"
| "rmatch ceq (Alt r1 r2) cs s = rmatch ceq r1 cs s @ rmatch ceq r2 cs s"
| "rmatch ceq (Grp k r) cs s =
     map (\<lambda>m. ((fst m)(k \<mapsto> take (length s - length (snd m)) s), snd m)) (rmatch ceq r cs s)"
| "rmatch ceq (Rep greedy r mn mx) cs s =
     (let more =
            (if mx = Some 0 then []
             else concat (map (\<lambda>m. if length (snd m) < length s
                                     then rmatch ceq (Rep greedy r (mn - 1) (map_option (\<lambda>n. n - 1) mx))
                                            (fst m) (snd m)
                                     else [])
                              (rmatch ceq r cs s)));
          stop = (if mn = 0 then [(cs, s)] else [])
      in if greedy then more @ stop else stop @ more)"
  by pat_completeness auto
termination
  by (relation "measures [\<lambda>(ceq, r, cs, s). rdepth r, \<lambda>(ceq, r, cs, s). length s]") auto

text \<open>
  The equation of the repetition unfolds itself, so it is not a rewrite rule by default.
\<close>

declare rmatch.simps(7) [simp del]

text \<open>
  The language of a pattern: the texts it can match, whatever the order in which the matcher
  tries them. Every result of \<open>rmatch\<close> splits the input into a text of the language and
  the rest.
\<close>

fun lang :: "(uchar \<Rightarrow> uchar \<Rightarrow> bool) \<Rightarrow> regex \<Rightarrow> ustring set" where
  "lang ceq Eps = {[]}"
| "lang ceq (Lit k) = {[c] | c. ceq k c}"
| "lang ceq (Cls P) = {[c] | c. P c}"
| "lang ceq (Seq r1 r2) = {u @ v | u v. u \<in> lang ceq r1 \<and> v \<in> lang ceq r2}"
| "lang ceq (Alt r1 r2) = lang ceq r1 \<union> lang ceq r2"
| "lang ceq (Grp k r) = lang ceq r"
| "lang ceq (Rep g r mn mx) =
     {concat ws | ws. mn \<le> length ws \<and> (case mx of None \<Rightarrow> True | Some n \<Rightarrow> length ws \<le> n) \<and>
        set ws \<subseteq> lang ceq r}"

declare lang.simps(7) [simp del]

lemma lang_Rep_step:
  assumes "u \<in> lang ceq r" and "v \<in> lang ceq (Rep g r (mn - 1) (map_option (\<lambda>n. n - 1) mx))"
    and "mx \<noteq> Some 0"
  shows "u @ v \<in> lang ceq (Rep g r mn mx)"
proof -
  from assms(2) obtain ws where v: "v = concat ws" and lo: "mn - 1 \<le> length ws"
    and hi: "case map_option (\<lambda>n. n - 1) mx of None \<Rightarrow> True | Some n \<Rightarrow> length ws \<le> n"
    and sub: "set ws \<subseteq> lang ceq r"
    unfolding lang.simps(7) by auto
  have "u @ v = concat (u # ws)" using v by simp
  moreover have "mn \<le> length (u # ws)" using lo by simp
  moreover have "case mx of None \<Rightarrow> True | Some n \<Rightarrow> length (u # ws) \<le> n"
    using hi assms(3) by (cases mx) auto
  moreover have "set (u # ws) \<subseteq> lang ceq r" using sub assms(1) by simp
  ultimately show ?thesis unfolding lang.simps(7) by blast
qed

lemma lang_Rep_empty: "[] \<in> lang ceq (Rep g r 0 mx)"
proof -
  have "[] = concat ([] :: ustring list)" by simp
  moreover have "case mx of None \<Rightarrow> True | Some n \<Rightarrow> length ([] :: ustring list) \<le> n"
    by (cases mx) auto
  ultimately show ?thesis unfolding lang.simps(7) by (intro CollectI exI [of _ "[]"]) auto
qed

lemma rmatch_sound:
  "(cs', s') \<in> set (rmatch ceq r cs s) \<Longrightarrow> \<exists>w. s = w @ s' \<and> w \<in> lang ceq r"
proof (induction ceq r cs s arbitrary: cs' s' rule: rmatch.induct)
  case (1 ceq cs s)
  then show ?case by simp
next
  case (2 ceq k cs s)
  then show ?case by (cases s) (auto split: if_splits)
next
  case (3 ceq P cs s)
  then show ?case by (cases s) (auto split: if_splits)
next
  case (4 ceq r1 r2 cs s)
  from "4.prems" obtain cs1 s1 where m1: "(cs1, s1) \<in> set (rmatch ceq r1 cs s)"
    and m: "(cs', s') \<in> set (rmatch ceq r2 cs1 s1)"
    by auto
  from "4.IH"(1) [OF m1] obtain u where u: "s = u @ s1" "u \<in> lang ceq r1" by blast
  have "\<exists>v. s1 = v @ s' \<and> v \<in> lang ceq r2"
    using "4.IH"(2) [of "(cs1, s1)" cs' s'] m1 m by simp
  then obtain v where v: "s1 = v @ s'" "v \<in> lang ceq r2" by blast
  from u v have "s = (u @ v) @ s'" "u @ v \<in> lang ceq (Seq r1 r2)" by auto
  then show ?case by blast
next
  case (5 ceq r1 r2 cs s)
  from "5.prems" have "(cs', s') \<in> set (rmatch ceq r1 cs s) \<or> (cs', s') \<in> set (rmatch ceq r2 cs s)"
    by simp
  then show ?case
  proof
    assume "(cs', s') \<in> set (rmatch ceq r1 cs s)"
    from "5.IH"(1) [OF this] show ?thesis by auto
  next
    assume "(cs', s') \<in> set (rmatch ceq r2 cs s)"
    from "5.IH"(2) [OF this] show ?thesis by auto
  qed
next
  case (6 ceq k r cs s)
  from "6.prems" obtain cs1 where "(cs1, s') \<in> set (rmatch ceq r cs s)" by auto
  from "6.IH" [OF this] show ?case by simp
next
  case (7 ceq greedy r mn mx cs s)
  have "(mn = 0 \<and> (cs', s') = (cs, s)) \<or>
    (mx \<noteq> Some 0 \<and> (\<exists>m1 \<in> set (rmatch ceq r cs s). length (snd m1) < length s \<and>
       (cs', s') \<in> set (rmatch ceq (Rep greedy r (mn - 1) (map_option (\<lambda>n. n - 1) mx)) (fst m1) (snd m1))))"
    using "7.prems" by (subst (asm) rmatch.simps(7)) (auto simp: Let_def split: if_splits)
  then show ?case
  proof
    assume "mn = 0 \<and> (cs', s') = (cs, s)"
    then show ?thesis using lang_Rep_empty [of ceq greedy r mx] by auto
  next
    assume "mx \<noteq> Some 0 \<and> (\<exists>m1 \<in> set (rmatch ceq r cs s). length (snd m1) < length s \<and>
       (cs', s') \<in> set (rmatch ceq (Rep greedy r (mn - 1) (map_option (\<lambda>n. n - 1) mx)) (fst m1) (snd m1)))"
    then obtain cs1 s1 where nz: "mx \<noteq> Some 0" and m1: "(cs1, s1) \<in> set (rmatch ceq r cs s)"
      and lt: "length s1 < length s"
      and m: "(cs', s') \<in> set (rmatch ceq (Rep greedy r (mn - 1) (map_option (\<lambda>n. n - 1) mx)) cs1 s1)"
      by auto
    from "7.IH"(1) [OF nz m1] obtain u where u: "s = u @ s1" "u \<in> lang ceq r" by blast
    have "\<exists>v. s1 = v @ s' \<and> v \<in> lang ceq (Rep greedy r (mn - 1) (map_option (\<lambda>n. n - 1) mx))"
      using "7.IH"(2) [of "(cs1, s1)" cs' s'] nz m1 lt m by simp
    then obtain v where v: "s1 = v @ s'"
      "v \<in> lang ceq (Rep greedy r (mn - 1) (map_option (\<lambda>n. n - 1) mx))" by blast
    from lang_Rep_step [OF u(2) v(2) nz] u(1) v(1) show ?thesis by auto
  qed
qed

lemma rmatch_length:
  "m \<in> set (rmatch ceq r cs s) \<Longrightarrow> length (snd m) \<le> length s"
  using rmatch_sound [of "fst m" "snd m" ceq r cs s] by auto

text \<open>
  \<^verbatim>\<open>re.search\<close>: the leftmost position at which the pattern matches, with the captures, the
  matched text and the text after it.
\<close>

fun search :: "(uchar \<Rightarrow> uchar \<Rightarrow> bool) \<Rightarrow> regex \<Rightarrow> ustring \<Rightarrow> (caps \<times> ustring \<times> ustring) option" where
  "search ceq r [] =
     (case rmatch ceq r Map.empty [] of
        [] \<Rightarrow> None
      | m # _ \<Rightarrow> Some (fst m, [], snd m))"
| "search ceq r (c # s) =
     (case rmatch ceq r Map.empty (c # s) of
        [] \<Rightarrow> search ceq r s
      | m # _ \<Rightarrow> Some (fst m, take (length (c # s) - length (snd m)) (c # s), snd m))"

lemma search_sound:
  "search ceq r s = Some (cs, m, rest) \<Longrightarrow> \<exists>pre. s = pre @ m @ rest \<and> m \<in> lang ceq r"
proof (induction s)
  case Nil
  then obtain x xs where x: "rmatch ceq r Map.empty [] = x # xs" and m: "m = []" and rest: "rest = snd x"
    by (auto split: list.splits)
  from x have "(fst x, snd x) \<in> set (rmatch ceq r Map.empty [])" by simp
  from rmatch_sound [OF this] m rest show ?case by auto
next
  case (Cons c s)
  show ?case
  proof (cases "rmatch ceq r Map.empty (c # s)")
    case Nil
    with Cons.prems have "search ceq r s = Some (cs, m, rest)" by simp
    from Cons.IH [OF this] obtain pre where "s = pre @ m @ rest" "m \<in> lang ceq r" by blast
    then have "c # s = (c # pre) @ m @ rest" "m \<in> lang ceq r" by simp_all
    then show ?thesis by blast
  next
    case (Cons x xs)
    with Cons.prems have m: "m = take (length (c # s) - length (snd x)) (c # s)" and rest: "rest = snd x"
      by auto
    from Cons have "(fst x, snd x) \<in> set (rmatch ceq r Map.empty (c # s))" by simp
    from rmatch_sound [OF this] obtain w where w: "c # s = w @ snd x" "w \<in> lang ceq r" by blast
    from w(1) have "length (c # s) - length (snd x) = length w"
      by (metis add_diff_cancel_right' length_append)
    with w(1) m have "m = w" by (metis append_eq_conv_conj)
    with w rest have "c # s = [] @ m @ rest" "m \<in> lang ceq r" by simp_all
    then show ?thesis by blast
  qed
qed

lemma search_length:
  "search ceq r s = Some (cs, m, rest) \<Longrightarrow> length m + length rest \<le> length s"
  using search_sound [of ceq r s cs m rest] by auto

text \<open>
  \<^verbatim>\<open>re.findall\<close>: the successive non-overlapping matches, each search starting where the
  match before ended. (After an empty match the scan moves on by one character; no pattern
  of the spider matches the empty string.)
\<close>

function findall :: "(uchar \<Rightarrow> uchar \<Rightarrow> bool) \<Rightarrow> regex \<Rightarrow> ustring \<Rightarrow> (caps \<times> ustring) list" where
  "findall ceq r s =
     (case search ceq r s of
        None \<Rightarrow> []
      | Some (cs, m, rest) \<Rightarrow>
          (cs, m) # (if length rest < length s then findall ceq r rest
                     else (case rest of [] \<Rightarrow> [] | c # t \<Rightarrow> findall ceq r t)))"
  by pat_completeness auto
termination
  by (relation "measure (\<lambda>(ceq, r, s). length s)") (auto dest: search_length)

declare findall.simps [simp del]

text \<open>With one group in the pattern, \<^verbatim>\<open>re.findall\<close> returns the texts of that group.\<close>

definition group :: "caps \<Rightarrow> nat \<Rightarrow> ustring" where
  "group cs k = (case cs k of None \<Rightarrow> [] | Some g \<Rightarrow> g)"

definition findall_group :: "(uchar \<Rightarrow> uchar \<Rightarrow> bool) \<Rightarrow> regex \<Rightarrow> ustring \<Rightarrow> ustring list" where
  "findall_group ceq r s = map (\<lambda>m. group (fst m) 1) (findall ceq r s)"

text \<open>
  What a group can hold after a match: the texts of the language of a group of that number
  somewhere in the pattern. A match changes the capture of a number only to such a text.
\<close>

fun grp_lang :: "(uchar \<Rightarrow> uchar \<Rightarrow> bool) \<Rightarrow> regex \<Rightarrow> nat \<Rightarrow> ustring set" where
  "grp_lang ceq Eps k = {}"
| "grp_lang ceq (Lit c) k = {}"
| "grp_lang ceq (Cls P) k = {}"
| "grp_lang ceq (Seq r1 r2) k = grp_lang ceq r1 k \<union> grp_lang ceq r2 k"
| "grp_lang ceq (Alt r1 r2) k = grp_lang ceq r1 k \<union> grp_lang ceq r2 k"
| "grp_lang ceq (Rep g r mn mx) k = grp_lang ceq r k"
| "grp_lang ceq (Grp j r) k = (if j = k then lang ceq r else {}) \<union> grp_lang ceq r k"

lemma rmatch_caps:
  "(cs', s') \<in> set (rmatch ceq r cs s) \<Longrightarrow>
     cs' k = cs k \<or> (\<exists>w \<in> grp_lang ceq r k. cs' k = Some w)"
proof (induction ceq r cs s arbitrary: cs' s' rule: rmatch.induct)
  case (1 ceq cs s)
  then show ?case by simp
next
  case (2 ceq c cs s)
  then show ?case by (cases s) (auto split: if_splits)
next
  case (3 ceq P cs s)
  then show ?case by (cases s) (auto split: if_splits)
next
  case (4 ceq r1 r2 cs s)
  from "4.prems" obtain cs1 s1 where m1: "(cs1, s1) \<in> set (rmatch ceq r1 cs s)"
    and m: "(cs', s') \<in> set (rmatch ceq r2 cs1 s1)"
    by auto
  have a: "cs1 k = cs k \<or> (\<exists>w \<in> grp_lang ceq r1 k. cs1 k = Some w)"
    by (rule "4.IH"(1) [OF m1])
  have b: "cs' k = cs1 k \<or> (\<exists>w \<in> grp_lang ceq r2 k. cs' k = Some w)"
    using "4.IH"(2) [of "(cs1, s1)" cs' s'] m1 m by simp
  from a b show ?case by auto
next
  case (5 ceq r1 r2 cs s)
  from "5.prems" have "(cs', s') \<in> set (rmatch ceq r1 cs s) \<or> (cs', s') \<in> set (rmatch ceq r2 cs s)"
    by simp
  then show ?case
  proof
    assume "(cs', s') \<in> set (rmatch ceq r1 cs s)"
    from "5.IH"(1) [OF this] show ?thesis by auto
  next
    assume "(cs', s') \<in> set (rmatch ceq r2 cs s)"
    from "5.IH"(2) [OF this] show ?thesis by auto
  qed
next
  case (6 ceq j r cs s)
  from "6.prems" obtain cs1 where m1: "(cs1, s') \<in> set (rmatch ceq r cs s)"
    and cs': "cs' = cs1(j \<mapsto> take (length s - length s') s)"
    by auto
  from rmatch_sound [OF m1] obtain w where w: "s = w @ s'" "w \<in> lang ceq r" by blast
  then have tk: "take (length s - length s') s = w" by simp
  show ?case
  proof (cases "j = k")
    case True
    with cs' tk w(2) show ?thesis by simp
  next
    case False
    with cs' "6.IH" [OF m1] show ?thesis by auto
  qed
next
  case (7 ceq greedy r mn mx cs s)
  have "(cs', s') = (cs, s) \<or>
    (mx \<noteq> Some 0 \<and> (\<exists>m1 \<in> set (rmatch ceq r cs s). length (snd m1) < length s \<and>
       (cs', s') \<in> set (rmatch ceq (Rep greedy r (mn - 1) (map_option (\<lambda>n. n - 1) mx)) (fst m1) (snd m1))))"
    using "7.prems" by (subst (asm) rmatch.simps(7)) (auto simp: Let_def split: if_splits)
  then show ?case
  proof
    assume "(cs', s') = (cs, s)"
    then show ?thesis by simp
  next
    assume "mx \<noteq> Some 0 \<and> (\<exists>m1 \<in> set (rmatch ceq r cs s). length (snd m1) < length s \<and>
       (cs', s') \<in> set (rmatch ceq (Rep greedy r (mn - 1) (map_option (\<lambda>n. n - 1) mx)) (fst m1) (snd m1)))"
    then obtain cs1 s1 where nz: "mx \<noteq> Some 0" and m1: "(cs1, s1) \<in> set (rmatch ceq r cs s)"
      and lt: "length s1 < length s"
      and m: "(cs', s') \<in> set (rmatch ceq (Rep greedy r (mn - 1) (map_option (\<lambda>n. n - 1) mx)) cs1 s1)"
      by auto
    have a: "cs1 k = cs k \<or> (\<exists>w \<in> grp_lang ceq r k. cs1 k = Some w)"
      by (rule "7.IH"(1) [OF nz m1])
    have b: "cs' k = cs1 k \<or> (\<exists>w \<in> grp_lang ceq r k. cs' k = Some w)"
      using "7.IH"(2) [of "(cs1, s1)" cs' s'] nz m1 lt m by simp
    from a b show ?thesis by auto
  qed
qed

lemma search_rmatch:
  "search ceq r s = Some (cs, m, rest) \<Longrightarrow> \<exists>s'. (cs, rest) \<in> set (rmatch ceq r Map.empty s')"
proof (induction s)
  case Nil
  then show ?case by (auto split: list.splits intro: exI [of _ "[]"])
next
  case (Cons c s)
  show ?case
  proof (cases "rmatch ceq r Map.empty (c # s)")
    case Nil
    with Cons show ?thesis by simp
  next
    case (Cons x xs)
    with Cons.prems have "(cs, rest) = x" by auto
    with Cons have "(cs, rest) \<in> set (rmatch ceq r Map.empty (c # s))" by simp
    then show ?thesis by blast
  qed
qed

lemma search_group:
  assumes "search ceq r s = Some (cs, m, rest)"
  shows "group cs k = [] \<or> group cs k \<in> grp_lang ceq r k"
proof -
  from search_rmatch [OF assms] obtain s' where "(cs, rest) \<in> set (rmatch ceq r Map.empty s')"
    by blast
  from rmatch_caps [OF this, of k] show ?thesis by (auto simp: group_def)
qed

lemma lang_Rep_Cls_length:
  assumes "w \<in> lang ceq (Rep g (Cls P) mn (Some n))"
  shows "length w \<le> n"
proof -
  from assms obtain ws where w: "w = concat ws" and n: "length ws \<le> n"
    and sub: "set ws \<subseteq> lang ceq (Cls P)"
    unfolding lang.simps(7) by auto
  from sub have "\<forall>x \<in> set ws. length x = 1" by auto
  then have "length (concat ws) = length ws"
    by (induction ws) auto
  with w n show ?thesis by simp
qed

text \<open>A literal text as a pattern, and the repetitions \<^verbatim>\<open>r+\<close>, \<^verbatim>\<open>r*\<close>, \<^verbatim>\<open>r?\<close>.\<close>

fun lit :: "ustring \<Rightarrow> regex" where
  "lit [] = Eps"
| "lit [k] = Lit k"
| "lit (k # ks) = Seq (Lit k) (lit ks)"

abbreviation Plus :: "regex \<Rightarrow> regex" where "Plus r \<equiv> Rep True r 1 None"
abbreviation Star :: "regex \<Rightarrow> regex" where "Star r \<equiv> Rep True r 0 None"
abbreviation Opt :: "regex \<Rightarrow> regex" where "Opt r \<equiv> Rep True r 0 (Some 1)"

subsection \<open>More string operations\<close>

text \<open>\<^verbatim>\<open>s.split(sep)\<close> for a separator of one character.\<close>

fun split_on :: "uchar \<Rightarrow> ustring \<Rightarrow> ustring list" where
  "split_on sep [] = [[]]"
| "split_on sep (c # s) =
     (if c = sep then [] # split_on sep s
      else (case split_on sep s of [] \<Rightarrow> [[c]] | p # ps \<Rightarrow> (c # p) # ps))"

lemma startswith_length: "startswith s p \<Longrightarrow> length p \<le> length s"
  by (induction s p rule: startswith.induct) auto

lemma startswith_drop: "startswith s p \<Longrightarrow> p \<noteq> [] \<Longrightarrow> length s - length p < length s"
  using startswith_length [of s p] by (cases p; cases s) auto

text \<open>\<^verbatim>\<open>s.replace(old, new)\<close>, for a non-empty \<open>old\<close> (the spider never passes an empty one).\<close>

function replace :: "ustring \<Rightarrow> ustring \<Rightarrow> ustring \<Rightarrow> ustring" where
  "replace old new s =
     (if old \<noteq> [] \<and> startswith s old then new @ replace old new (drop (length old) s)
      else (case s of [] \<Rightarrow> [] | c # s' \<Rightarrow> c # replace old new s'))"
  by pat_completeness auto
termination
  by (relation "measure (\<lambda>(old, new, s). length s)") (auto dest: startswith_drop)

declare replace.simps [simp del]

text \<open>\<^verbatim>\<open>s.split()\<close>: the maximal runs of characters that are not white space.\<close>

function words_ws :: "ustring \<Rightarrow> ustring list" where
  "words_ws s =
     (case dropWhile is_space s of
        [] \<Rightarrow> []
      | c # t \<Rightarrow> takeWhile (\<lambda>x. \<not> is_space x) (c # t) # words_ws (dropWhile (\<lambda>x. \<not> is_space x) t))"
  by pat_completeness auto
termination
proof (relation "measure length")
  show "wf (measure length)" by simp
next
  fix s :: ustring and c t
  assume a: "dropWhile is_space s = c # t"
  have "length (dropWhile (\<lambda>x. \<not> is_space x) t) \<le> length t"
    by (rule length_dropWhile_le)
  moreover have "length (c # t) \<le> length s"
    using length_dropWhile_le [of is_space s] a by simp
  ultimately show "(dropWhile (\<lambda>x. \<not> is_space x) t, s) \<in> measure length"
    by simp
qed

declare words_ws.simps [simp del]

text \<open>\<^verbatim>\<open>re.sub(r'\s+', ' ', s)\<close>: every maximal run of white space becomes one space.\<close>

function collapse_ws :: "ustring \<Rightarrow> ustring" where
  "collapse_ws [] = []"
| "collapse_ws (c # s) =
     (if is_space c then sp # collapse_ws (dropWhile is_space s) else c # collapse_ws s)"
  by pat_completeness auto
termination
proof (relation "measure length")
  show "wf (measure length)" by simp
next
  fix c :: uchar and s :: ustring
  show "(dropWhile is_space s, c # s) \<in> measure length"
    using length_dropWhile_le [of is_space s] by simp
next
  fix c :: uchar and s :: ustring
  show "(s, c # s) \<in> measure length" by simp
qed

section \<open>Dates\<close>

text \<open>
  \<^verbatim>\<open>datetime(year, month, day, hour, minute)\<close> raises \<^verbatim>\<open>OverflowError\<close> for an argument
  that does not fit a C \<^verbatim>\<open>int\<close> and \<^verbatim>\<open>ValueError\<close> for one that is out of range.
\<close>

datatype pyexc = ValueError | OverflowError

definition c_int_ok :: "int \<Rightarrow> bool" where
  "c_int_ok n \<longleftrightarrow> - 2147483648 \<le> n \<and> n \<le> 2147483647"

definition is_leap :: "int \<Rightarrow> bool" where
  "is_leap y \<longleftrightarrow> y mod 4 = 0 \<and> (y mod 100 \<noteq> 0 \<or> y mod 400 = 0)"

definition days_in_month :: "int \<Rightarrow> int \<Rightarrow> int" where
  "days_in_month y m =
     (if m = 2 then (if is_leap y then 29 else 28)
      else if m = 4 \<or> m = 6 \<or> m = 9 \<or> m = 11 then 30 else 31)"

definition mk_datetime :: "int \<Rightarrow> int \<Rightarrow> int \<Rightarrow> int \<Rightarrow> int \<Rightarrow> pyexc + datetime" where
  "mk_datetime y m d h mi =
     (if \<not> (c_int_ok y \<and> c_int_ok m \<and> c_int_ok d \<and> c_int_ok h \<and> c_int_ok mi) then Inl OverflowError
      else if 1 \<le> y \<and> y \<le> 9999 \<and> 1 \<le> m \<and> m \<le> 12 \<and> 1 \<le> d \<and> d \<le> days_in_month y m \<and>
              0 \<le> h \<and> h \<le> 23 \<and> 0 \<le> mi \<and> mi \<le> 59
      then Inr \<lparr>dt_year = y, dt_month = m, dt_day = d, dt_hour = h, dt_minute = mi,
                dt_second = 0, dt_microsecond = 0\<rparr>
      else Inl ValueError)"

text \<open>\<^verbatim>\<open>d.date()\<close> and the order of calendar days.\<close>

definition date_of :: "datetime \<Rightarrow> int \<times> int \<times> int" where
  "date_of d = (dt_year d, dt_month d, dt_day d)"

fun date_before :: "int \<times> int \<times> int \<Rightarrow> int \<times> int \<times> int \<Rightarrow> bool" where
  "date_before (y1, m1, d1) (y2, m2, d2) \<longleftrightarrow>
     y1 < y2 \<or> (y1 = y2 \<and> (m1 < m2 \<or> (m1 = m2 \<and> d1 < d2)))"

section \<open>The listing page\<close>

text \<open>
  What the selectors of \<^verbatim>\<open>parse_news_list\<close> and \<^verbatim>\<open>extract_item_date\<close> read from one
  \<^verbatim>\<open>.lenta_item\<close>: whether it has a \<^verbatim>\<open>.new_date\<close> block, the first text of \<^verbatim>\<open>.day\<close> and of
  \<^verbatim>\<open>.month_year\<close> in it, the texts of its \<^verbatim>\<open>.lenta_item_title\<close> (\<open>None\<close> when there is no
  such element), the first \<^verbatim>\<open>href\<close> of a link, and the texts of its \<^verbatim>\<open>.lenta_textsmall\<close>.
\<close>

record lenta_item =
  new_date :: bool
  day_text :: "ustring option"
  month_year_text :: "ustring option"
  title_span :: "ustring list option"
  link_href :: "ustring option"
  snippet_span :: "ustring list option"

text \<open>
  \<^verbatim>\<open>extract_item_date\<close>. The handler catches \<^verbatim>\<open>ValueError\<close> and \<^verbatim>\<open>IndexError\<close>, so a failing
  \<^verbatim>\<open>int\<close> ends in \<^verbatim>\<open>None\<close>; an \<^verbatim>\<open>OverflowError\<close> would leave the function.
\<close>

definition extract_item_date :: "pylib \<Rightarrow> lenta_item \<Rightarrow> pyexc + datetime option" where
  "extract_item_date L item =
     (if new_date item then
        (if truthy (day_text item) \<and> truthy (month_year_text item) then
           (let day = strip (the (day_text item));
                month_year = strip (replace [0x2E] [] (strip (the (month_year_text item))));
                parts = split_on 0x2E month_year
            in if length parts = 2 then
                 (case py_int L (parts ! 0) of
                    None \<Rightarrow> Inr None
                  | Some month_n \<Rightarrow>
                 (case py_int L (parts ! 1) of
                    None \<Rightarrow> Inr None
                  | Some year_short \<Rightarrow>
                 (let year_n = (if year_short \<ge> 50 then 1900 + year_short else 2000 + year_short)
                  in case py_int L day of
                    None \<Rightarrow> Inr None
                  | Some day_int \<Rightarrow>
                 (case mk_datetime year_n month_n day_int 0 0 of
                    Inl ValueError \<Rightarrow> Inr None
                  | Inl OverflowError \<Rightarrow> Inl OverflowError
                  | Inr d \<Rightarrow> Inr (Some d)))))
               else Inr None)
         else Inr None)
      else Inr None)"

section \<open>Extraction of the name and of the position\<close>

text \<open>The classes \<^verbatim>\<open>[A-YA YO]\<close> and \<^verbatim>\<open>[a-ya yo]\<close> of Cyrillic capitals and small letters, and \<^verbatim>\<open>[^.]\<close>.\<close>

definition is_cyr_upper :: "uchar \<Rightarrow> bool" where
  "is_cyr_upper c \<longleftrightarrow> (0x410 \<le> c \<and> c \<le> 0x42F) \<or> c = 0x401"

definition is_cyr_lower :: "uchar \<Rightarrow> bool" where
  "is_cyr_lower c \<longleftrightarrow> (0x430 \<le> c \<and> c \<le> 0x44F) \<or> c = 0x451"

definition not_dot :: "uchar \<Rightarrow> bool" where
  "not_dot c \<longleftrightarrow> c \<noteq> 0x2E"

text \<open>
  \<^verbatim>\<open>FIO_PATTERN\<close>: a capital and one or more small letters, then once or twice white space and
  such a word again; the whole is group 1.
\<close>

definition cap_word :: regex where
  "cap_word = Seq (Cls is_cyr_upper) (Plus (Cls is_cyr_lower))"

definition FIO_PATTERN :: regex where
  "FIO_PATTERN = Grp 1 (Seq cap_word (Rep True (Seq (Plus (Cls is_space)) cap_word) 1 (Some 2)))"

text \<open>
  \<^verbatim>\<open>excluded_words\<close>: Prezident, Respubliki, Belarus', Komitet, Sovet, Ministerstvo,
  Gosudarstvennyj, Natsional'nyj, Administratsiya.
\<close>

definition excluded_words :: "ustring list" where
  "excluded_words =
    [
     [C_p, c_r, c_e, c_z, c_i, c_d, c_e, c_n, c_t],
     [C_r, c_e, c_s, c_p, c_u, c_b, c_l, c_i, c_k, c_i],
     [C_b, c_e, c_l, c_a, c_r, c_u, c_s, c_soft],
     [C_k, c_o, c_m, c_i, c_t, c_e, c_t],
     [C_s, c_o, c_v, c_e, c_t],
     [C_m, c_i, c_n, c_i, c_s, c_t, c_e, c_r, c_s, c_t, c_v, c_o],
     [C_g, c_o, c_s, c_u, c_d, c_a, c_r, c_s, c_t, c_v, c_e, c_n, c_n, c_y, c_j],
     [C_n, c_a, c_ts, c_i, c_o, c_n, c_a, c_l, c_soft, c_n, c_y, c_j],
     [C_a, c_d, c_m, c_i, c_n, c_i, c_s, c_t, c_r, c_a, c_ts, c_i, c_ya]]"

text \<open>The sentinel ``Ne udalos' opredelit' FIO''.\<close>

definition fio_sentinel :: ustring where
  "fio_sentinel =
     [C_n, c_e, sp, c_u, c_d, c_a, c_l, c_o, c_s, c_soft, sp, c_o, c_p, c_r, c_e, c_d, c_e,
      c_l, c_i, c_t, c_soft, sp, C_f, C_i, C_o]"

text \<open>The loop of \<^verbatim>\<open>extract_fio\<close> over the matches; \<open>None\<close> when it ends without a return.\<close>

fun fio_loop :: "ustring list \<Rightarrow> ustring option" where
  "fio_loop [] = None"
| "fio_loop (match # matches) =
     (let words = words_ws match
      in if 2 \<le> length words \<and> length words \<le> 3 \<and>
            \<not> list_ex (\<lambda>excluded. contains match excluded) excluded_words
         then Some (strip match)
         else fio_loop matches)"

definition extract_fio :: "ustring \<Rightarrow> ustring \<Rightarrow> ustring" where
  "extract_fio full_text title =
     (case fio_loop (findall_group (=) FIO_PATTERN full_text) of
        Some fio \<Rightarrow> fio
      | None \<Rightarrow> fio_sentinel)"

text \<open>
  A capitalized word is a Cyrillic capital followed by one or more Cyrillic small letters.
  A text has the shape of a name when it splits at white space into two or three
  capitalized words and has no white space at either end.
\<close>

definition is_cap_word :: "ustring \<Rightarrow> bool" where
  "is_cap_word w =
     (case w of [] \<Rightarrow> False | c # ls \<Rightarrow> is_cyr_upper c \<and> ls \<noteq> [] \<and> list_all is_cyr_lower ls)"

definition fio_shape :: "ustring \<Rightarrow> bool" where
  "fio_shape c \<longleftrightarrow>
     (length (words_ws c) = 2 \<or> length (words_ws c) = 3) \<and>
     list_all is_cap_word (words_ws c) \<and> strip c = c"

definition has_excluded :: "ustring \<Rightarrow> bool" where
  "has_excluded c = list_ex (\<lambda>excluded. contains c excluded) excluded_words"

text \<open>
  \<^verbatim>\<open>POSITION_PATTERNS\<close>, in the order of the source: after ``na dolzhnost' '', after
  ``naznachen'', after ``naznachena'', and after an en dash (U+2013) or an em dash (U+2014)
  a phrase with one of the nouns predsedatel', nachal'nik, ministr, rukovoditel', direktor,
  zamestitel', sovetnik, pomoschnik, predstavitel'. The last two start with the lazy
  \<^verbatim>\<open>[^.]+?\<close>.
\<close>

definition title_nouns :: regex where
  "title_nouns =
     (Alt (lit [c_p, c_r, c_e, c_d, c_s, c_e, c_d, c_a, c_t, c_e, c_l, c_soft])
     (Alt (lit [c_n, c_a, c_ch, c_a, c_l, c_soft, c_n, c_i, c_k])
     (Alt (lit [c_m, c_i, c_n, c_i, c_s, c_t, c_r])
     (Alt (lit [c_r, c_u, c_k, c_o, c_v, c_o, c_d, c_i, c_t, c_e, c_l, c_soft])
     (Alt (lit [c_d, c_i, c_r, c_e, c_k, c_t, c_o, c_r])
     (Alt (lit [c_z, c_a, c_m, c_e, c_s, c_t, c_i, c_t, c_e, c_l, c_soft])
     (Alt (lit [c_s, c_o, c_v, c_e, c_t, c_n, c_i, c_k])
     (Alt (lit [c_p, c_o, c_m, c_o, c_sch, c_n, c_i, c_k])
     (lit [c_p, c_r, c_e, c_d, c_s, c_t, c_a, c_v, c_i, c_t, c_e, c_l, c_soft])))))))))"

definition after_phrase :: "ustring \<Rightarrow> regex" where
  "after_phrase p = Seq (lit p) (Seq (Plus (Cls is_space)) (Grp 1 (Plus (Cls not_dot))))"

definition after_dash :: "uchar \<Rightarrow> regex" where
  "after_dash d =
     Seq (Lit d) (Seq (Plus (Cls is_space))
       (Grp 1 (Seq (Rep False (Cls not_dot) 1 None)
                (Seq (Plus (Cls is_space)) (Seq title_nouns (Plus (Cls not_dot)))))))"

definition POSITION_PATTERNS :: "regex list" where
  "POSITION_PATTERNS =
    [after_phrase [c_n, c_a, sp, c_d, c_o, c_l, c_zh, c_n, c_o, c_s, c_t, c_soft],
     after_phrase [c_n, c_a, c_z, c_n, c_a, c_ch, c_e, c_n],
     after_phrase [c_n, c_a, c_z, c_n, c_a, c_ch, c_e, c_n, c_a],
     after_dash 0x2013,
     after_dash 0x2014]"

text \<open>
  \<^verbatim>\<open>position_keywords\<close>: predsedatel', ministr, nachal'nik, direktor, rukovoditel',
  zamestitel', sovetnik, pomoschnik, predstavitel', posol, sud'ya, prokuror; and the pattern
  \<^verbatim>\<open>([^.]*keyword[^.]*)\<close> built from one of them.
\<close>

definition position_keywords :: "ustring list" where
  "position_keywords =
    [
     [c_p, c_r, c_e, c_d, c_s, c_e, c_d, c_a, c_t, c_e, c_l, c_soft],
     [c_m, c_i, c_n, c_i, c_s, c_t, c_r],
     [c_n, c_a, c_ch, c_a, c_l, c_soft, c_n, c_i, c_k],
     [c_d, c_i, c_r, c_e, c_k, c_t, c_o, c_r],
     [c_r, c_u, c_k, c_o, c_v, c_o, c_d, c_i, c_t, c_e, c_l, c_soft],
     [c_z, c_a, c_m, c_e, c_s, c_t, c_i, c_t, c_e, c_l, c_soft],
     [c_s, c_o, c_v, c_e, c_t, c_n, c_i, c_k],
     [c_p, c_o, c_m, c_o, c_sch, c_n, c_i, c_k],
     [c_p, c_r, c_e, c_d, c_s, c_t, c_a, c_v, c_i, c_t, c_e, c_l, c_soft],
     [c_p, c_o, c_s, c_o, c_l],
     [c_s, c_u, c_d, c_soft, c_ya],
     [c_p, c_r, c_o, c_k, c_u, c_r, c_o, c_r]]"

definition keyword_pattern :: "ustring \<Rightarrow> regex" where
  "keyword_pattern keyword = Grp 1 (Seq (Star (Cls not_dot)) (Seq (lit keyword) (Star (Cls not_dot))))"

text \<open>The sentinel ``Dolzhnost' ne ukazana''.\<close>

definition position_sentinel :: ustring where
  "position_sentinel =
     [C_d, c_o, c_l, c_zh, c_n, c_o, c_s, c_t, c_soft, sp, c_n, c_e, sp, c_u, c_k, c_a, c_z,
      c_a, c_n, c_a]"

text \<open>
  The cleaning of a matched phrase: \<^verbatim>\<open>strip\<close>, runs of white space to one space,
  \<^verbatim>\<open>rstrip('.,;:')\<close>.
\<close>

definition clean_position :: "ustring \<Rightarrow> ustring" where
  "clean_position m = rstrip_chars [0x2E, 0x2C, 0x3B, 0x3A] (collapse_ws (strip m))"

text \<open>The two loops of \<^verbatim>\<open>extract_position\<close>; both patterns are matched with \<^verbatim>\<open>re.IGNORECASE\<close>.\<close>

fun position_loop :: "pylib \<Rightarrow> ustring \<Rightarrow> regex list \<Rightarrow> ustring option" where
  "position_loop L full_text [] = None"
| "position_loop L full_text (pattern # patterns) =
     (case findall_group (py_ci_eq L) pattern full_text of
        [] \<Rightarrow> position_loop L full_text patterns
      | m # _ \<Rightarrow>
          (let position = clean_position m
           in if length position > 5 then Some position
              else position_loop L full_text patterns))"

fun keyword_loop :: "pylib \<Rightarrow> ustring \<Rightarrow> ustring list \<Rightarrow> ustring option" where
  "keyword_loop L full_text [] = None"
| "keyword_loop L full_text (keyword # keywords) =
     (case findall_group (py_ci_eq L) (keyword_pattern keyword) full_text of
        [] \<Rightarrow> keyword_loop L full_text keywords
      | m # _ \<Rightarrow> Some (strip m))"

definition extract_position :: "pylib \<Rightarrow> ustring \<Rightarrow> ustring \<Rightarrow> ustring" where
  "extract_position L full_text title =
     (case position_loop L full_text POSITION_PATTERNS of
        Some position \<Rightarrow> position
      | None \<Rightarrow>
          (case keyword_loop L full_text position_keywords of
             Some position \<Rightarrow> position
           | None \<Rightarrow> position_sentinel))"

text \<open>
  \<open>first_match\<close> is \<^verbatim>\<open>matches[0]\<close> of \<^verbatim>\<open>re.findall(pattern, full_text, re.IGNORECASE)\<close>, when there
  is a match. A position pattern fails when it has no match or the cleaned form of its
  first match has at most five characters.
\<close>

definition first_match :: "pylib \<Rightarrow> regex \<Rightarrow> ustring \<Rightarrow> ustring option" where
  "first_match L pattern full_text =
     (case findall_group (py_ci_eq L) pattern full_text of [] \<Rightarrow> None | m # _ \<Rightarrow> Some m)"

definition pattern_fails :: "pylib \<Rightarrow> ustring \<Rightarrow> regex \<Rightarrow> bool" where
  "pattern_fails L full_text pattern =
     (case first_match L pattern full_text of
        None \<Rightarrow> True
      | Some m \<Rightarrow> length (clean_position m) \<le> 5)"

section \<open>Dates in text\<close>

text \<open>
  \<^verbatim>\<open>ru_months\<close>: yanvarya, fevralya, marta, aprelya, maya, iyunya, iyulya, avgusta,
  sentyabrya, oktyabrya, noyabrya, dekabrya.
\<close>

definition ru_months :: "(ustring \<times> int) list" where
  "ru_months =
    [
     ([c_ya, c_n, c_v, c_a, c_r, c_ya], 1),
     ([c_f, c_e, c_v, c_r, c_a, c_l, c_ya], 2),
     ([c_m, c_a, c_r, c_t, c_a], 3),
     ([c_a, c_p, c_r, c_e, c_l, c_ya], 4),
     ([c_m, c_a, c_ya], 5),
     ([c_i, c_yu, c_n, c_ya], 6),
     ([c_i, c_yu, c_l, c_ya], 7),
     ([c_a, c_v, c_g, c_u, c_s, c_t, c_a], 8),
     ([c_s, c_e, c_n, c_t, c_ya, c_b, c_r, c_ya], 9),
     ([c_o, c_k, c_t, c_ya, c_b, c_r, c_ya], 10),
     ([c_n, c_o, c_ya, c_b, c_r, c_ya], 11),
     ([c_d, c_e, c_k, c_a, c_b, c_r, c_ya], 12)]"

text \<open>
  The pattern of \<^verbatim>\<open>parse_date_string\<close>, \<^verbatim>\<open>(\d{1,2})\s+([a-ya yo]+)\s+(\d{4})\<close>, and the one of
  \<^verbatim>\<open>parse_date_full_format\<close>, which adds \<^verbatim>\<open>(?:,\s+(\d{1,2}):(\d{2}))?\<close>.
\<close>

definition DATE_RU :: "pylib \<Rightarrow> regex" where
  "DATE_RU L =
     Seq (Grp 1 (Rep True (Cls (py_isdigit L)) 1 (Some 2)))
    (Seq (Plus (Cls is_space))
    (Seq (Grp 2 (Plus (Cls is_cyr_lower)))
    (Seq (Plus (Cls is_space))
         (Grp 3 (Rep True (Cls (py_isdigit L)) 4 (Some 4))))))"

definition DATE_FULL :: "pylib \<Rightarrow> regex" where
  "DATE_FULL L =
     Seq (DATE_RU L)
       (Opt (Seq (Lit 0x2C)
            (Seq (Plus (Cls is_space))
            (Seq (Grp 4 (Rep True (Cls (py_isdigit L)) 1 (Some 2)))
            (Seq (Lit 0x3A)
                 (Grp 5 (Rep True (Cls (py_isdigit L)) 2 (Some 2))))))))"

text \<open>
  \<^verbatim>\<open>parse_date_full_format\<close>. Its body is inside \<^verbatim>\<open>try ... except Exception\<close>, so every failure
  (of \<^verbatim>\<open>int\<close>, of \<^verbatim>\<open>datetime\<close>) ends in \<^verbatim>\<open>None\<close>.
\<close>

definition parse_date_full_format :: "pylib \<Rightarrow> ustring \<Rightarrow> datetime option" where
  "parse_date_full_format L date_string =
     (let date_string = strip (collapse_ws date_string)
      in case search (=) (DATE_FULL L) (py_lower L date_string) of
           None \<Rightarrow> None
         | Some (cs, _) \<Rightarrow>
        (case py_int L (group cs 1) of
           None \<Rightarrow> None
         | Some day_n \<Rightarrow>
        (let month_ru = group cs 2
         in case py_int L (group cs 3) of
           None \<Rightarrow> None
         | Some year_n \<Rightarrow>
             if truthy (cs 4) \<and> truthy (cs 5) then
               (case py_int L (group cs 4) of
                  None \<Rightarrow> None
                | Some hour_n \<Rightarrow>
               (case py_int L (group cs 5) of
                  None \<Rightarrow> None
                | Some minute_n \<Rightarrow>
               (case map_of ru_months month_ru of
                  None \<Rightarrow> None
                | Some month_n \<Rightarrow>
                    (case mk_datetime year_n month_n day_n hour_n minute_n of
                       Inl e \<Rightarrow> None
                     | Inr d \<Rightarrow> Some d))))
             else
               (case map_of ru_months month_ru of
                  None \<Rightarrow> None
                | Some month_n \<Rightarrow>
                    (case mk_datetime year_n month_n day_n 0 0 of
                       Inl e \<Rightarrow> None
                     | Inr d \<Rightarrow> Some d)))))"

text \<open>\<^verbatim>\<open>date_formats\<close>, and the loop that returns the first format that parses.\<close>

definition date_formats :: "string list" where
  "date_formats =
    [''%Y-%m-%dT%H:%M:%S'', ''%Y-%m-%d %H:%M:%S'', ''%d.%m.%Y %H:%M'', ''%d.%m.%Y'', ''%d %m %Y'']"

fun formats_loop :: "pylib \<Rightarrow> ustring \<Rightarrow> string list \<Rightarrow> datetime option" where
  "formats_loop L date_string [] = None"
| "formats_loop L date_string (fmt # fmts) =
     (case py_strptime L date_string fmt of
        Some d \<Rightarrow> Some d
      | None \<Rightarrow> formats_loop L date_string fmts)"

text \<open>
  \<^verbatim>\<open>parse_date_string\<close>. The last \<^verbatim>\<open>try\<close> catches \<^verbatim>\<open>ValueError\<close> only, so an
  \<^verbatim>\<open>OverflowError\<close> of \<^verbatim>\<open>datetime\<close> would leave the function.
\<close>

definition parse_date_string :: "pylib \<Rightarrow> ustring \<Rightarrow> pyexc + datetime option" where
  "parse_date_string L date_string =
     (if date_string = [] then Inr None
      else
        (let date_string = strip date_string
         in case formats_loop L date_string date_formats of
              Some d \<Rightarrow> Inr (Some d)
            | None \<Rightarrow>
           (case search (=) (DATE_RU L) (py_lower L date_string) of
              None \<Rightarrow> Inr None
            | Some (cs, _) \<Rightarrow>
           (case map_of ru_months (group cs 2) of
              None \<Rightarrow> Inr None
            | Some month_n \<Rightarrow>
           (case py_int L (group cs 3) of
              None \<Rightarrow> Inr None
            | Some year_n \<Rightarrow>
           (case py_int L (group cs 1) of
              None \<Rightarrow> Inr None
            | Some day_n \<Rightarrow>
           (case mk_datetime year_n month_n day_n 0 0 of
              Inl ValueError \<Rightarrow> Inr None
            | Inl OverflowError \<Rightarrow> Inl OverflowError
            | Inr d \<Rightarrow> Inr (Some d))))))))"

section \<open>The article page\<close>

text \<open>
  The selectors that \<^verbatim>\<open>extract_article_date\<close> falls back to, in the order of \<^verbatim>\<open>date_selectors\<close>:
  \<^verbatim>\<open>time::attr(datetime)\<close>, \<^verbatim>\<open>.date::text\<close>, \<^verbatim>\<open>.news-date::text\<close>, \<^verbatim>\<open>.publication-date::text\<close>,
  the \<^verbatim>\<open>content\<close> of \<^verbatim>\<open>meta[property=article:published_time]\<close>, \<^verbatim>\<open>.meta-date::text\<close>,
  \<^verbatim>\<open>.article-date::text\<close>.
\<close>

datatype date_selector =
    Sel_time_datetime
  | Sel_date
  | Sel_news_date
  | Sel_publication_date
  | Sel_meta_published_time
  | Sel_meta_date
  | Sel_article_date

definition date_selectors :: "date_selector list" where
  "date_selectors =
    [Sel_time_datetime, Sel_date, Sel_news_date, Sel_publication_date, Sel_meta_published_time,
     Sel_meta_date, Sel_article_date]"

text \<open>
  The selectors that \<^verbatim>\<open>extract_article_content\<close> falls back to, in the order of
  \<^verbatim>\<open>content_selectors\<close>: \<^verbatim>\<open>.article-text\<close>, \<^verbatim>\<open>.news-text\<close>, \<^verbatim>\<open>.content\<close>, \<^verbatim>\<open>article\<close>,
  \<^verbatim>\<open>.post-content\<close>, \<^verbatim>\<open>#article-content\<close>, \<^verbatim>\<open>.detail-text\<close>, \<^verbatim>\<open>.text\<close>.
\<close>

datatype content_selector =
    Sel_article_text
  | Sel_news_text
  | Sel_content
  | Sel_article
  | Sel_post_content
  | Sel_article_content
  | Sel_detail_text
  | Sel_text

definition content_selectors :: "content_selector list" where
  "content_selectors =
    [Sel_article_text, Sel_news_text, Sel_content, Sel_article, Sel_post_content,
     Sel_article_content, Sel_detail_text, Sel_text]"

text \<open>
  What the selectors read from an article page: its URL; the first text of \<^verbatim>\<open>.date_full\<close>;
  the first result of each date selector; the texts under \<^verbatim>\<open>div[itemprop=articleBody]\<close>
  (\<open>None\<close> when there is no such element); for each content selector the texts of the
  paragraphs under it (\<open>None\<close> when it selects nothing); the texts of all paragraphs.
\<close>

record article_response =
  resp_url :: ustring
  date_full_text :: "ustring option"
  date_selector_text :: "date_selector \<Rightarrow> ustring option"
  article_body :: "ustring list option"
  content_paragraphs :: "content_selector \<Rightarrow> ustring list option"
  all_paragraphs :: "ustring list"

fun content_loop :: "article_response \<Rightarrow> content_selector list \<Rightarrow> ustring option" where
  "content_loop response [] = None"
| "content_loop response (selector # selectors) =
     (case content_paragraphs response selector of
        None \<Rightarrow> content_loop response selectors
      | Some paragraphs \<Rightarrow>
          if paragraphs \<noteq> [] then Some (strip (join [sp] paragraphs))
          else content_loop response selectors)"

definition body_text :: "ustring list \<Rightarrow> ustring" where
  "body_text all_text = join [sp] (filter (\<lambda>t. t \<noteq> []) (map strip all_text))"

definition extract_article_content :: "article_response \<Rightarrow> ustring" where
  "extract_article_content response =
     (case (case article_body response of
              None \<Rightarrow> None
            | Some all_text \<Rightarrow> if all_text \<noteq> [] then Some (body_text all_text) else None) of
        Some content \<Rightarrow> content
      | None \<Rightarrow>
          (case content_loop response content_selectors of
             Some content \<Rightarrow> content
           | None \<Rightarrow>
               (let paragraphs = all_paragraphs response
                in if paragraphs \<noteq> [] then strip (join [sp] paragraphs) else [])))"

text \<open>
  \<^verbatim>\<open>extract_article_date\<close>: the \<^verbatim>\<open>.date_full\<close> text, then the selectors in order, then the current
  time. \<open>Inr None\<close> would be a return of \<^verbatim>\<open>None\<close>; \<open>Inl\<close> is an exception that leaves the
  function.
\<close>

fun date_selectors_loop ::
  "pylib \<Rightarrow> article_response \<Rightarrow> date_selector list \<Rightarrow> pyexc + datetime option" where
  "date_selectors_loop L response [] = Inr None"
| "date_selectors_loop L response (selector # selectors) =
     (let date_text = date_selector_text response selector
      in if truthy date_text then
           (case parse_date_string L (strip (the date_text)) of
              Inl e \<Rightarrow> Inl e
            | Inr (Some parsed_date) \<Rightarrow> Inr (Some parsed_date)
            | Inr None \<Rightarrow> date_selectors_loop L response selectors)
         else date_selectors_loop L response selectors)"

definition extract_article_date ::
  "pylib \<Rightarrow> datetime \<Rightarrow> article_response \<Rightarrow> pyexc + datetime option" where
  "extract_article_date L now response =
     (let date_full = date_full_text response
      in case (if truthy date_full then parse_date_full_format L (strip (the date_full)) else None) of
           Some parsed_date \<Rightarrow> Inr (Some parsed_date)
         | None \<Rightarrow>
             (case date_selectors_loop L response date_selectors of
                Inl e \<Rightarrow> Inl e
              | Inr (Some parsed_date) \<Rightarrow> Inr (Some parsed_date)
              | Inr None \<Rightarrow> Inr (Some now)))"

definition check_is_today :: "datetime \<Rightarrow> datetime option \<Rightarrow> bool" where
  "check_is_today today pub_date =
     (case pub_date of None \<Rightarrow> False | Some d \<Rightarrow> date_of d = date_of today)"

section \<open>The notification and the emitted record\<close>

record notification =
  ntf_header :: ustring
  ntf_text :: ustring
  ntf_source :: ustring

text \<open>
  The header ``Novoe naznachenie Prezidenta Respubliki Belarus' '' and the three pieces of the
  text: ``Opublikovano novoe kadrovoe reshenie: '', ``, naznachen(a) na dolzhnost' '' and
  ``. Neobhodimo podgotovit' pozdravlenie.''.
\<close>

definition notification_header_text :: ustring where
  "notification_header_text =
     [C_n, c_o, c_v, c_o, c_e, sp, c_n, c_a, c_z, c_n, c_a, c_ch, c_e, c_n, c_i, c_e, sp, C_p,
      c_r, c_e, c_z, c_i, c_d, c_e, c_n, c_t, c_a, sp, C_r, c_e, c_s, c_p, c_u, c_b, c_l, c_i,
      c_k, c_i, sp, C_b, c_e, c_l, c_a, c_r, c_u, c_s, c_soft]"

definition notification_intro :: ustring where
  "notification_intro =
     [C_o, c_p, c_u, c_b, c_l, c_i, c_k, c_o, c_v, c_a, c_n, c_o, sp, c_n, c_o, c_v, c_o, c_e,
      sp, c_k, c_a, c_d, c_r, c_o, c_v, c_o, c_e, sp, c_r, c_e, c_sh, c_e, c_n, c_i, c_e, 0x3A,
      sp]"

definition notification_middle :: ustring where
  "notification_middle =
     [0x2C, sp, c_n, c_a, c_z, c_n, c_a, c_ch, c_e, c_n, 0x28, c_a, 0x29, sp, c_n, c_a, sp,
      c_d, c_o, c_l, c_zh, c_n, c_o, c_s, c_t, c_soft, sp]"

definition notification_ending :: ustring where
  "notification_ending =
     [0x2E, sp, C_n, c_e, c_o, c_b, c_h, c_o, c_d, c_i, c_m, c_o, sp, c_p, c_o, c_d, c_g, c_o,
      c_t, c_o, c_v, c_i, c_t, c_soft, sp, c_p, c_o, c_z, c_d, c_r, c_a, c_v, c_l, c_e, c_n,
      c_i, c_e, 0x2E]"

definition create_notification :: "ustring \<Rightarrow> ustring \<Rightarrow> ustring \<Rightarrow> notification" where
  "create_notification fio position url =
     \<lparr>ntf_header = notification_header_text,
      ntf_text = notification_intro @ fio @ notification_middle @ position @ notification_ending,
      ntf_source = url\<rparr>"

text \<open>The \<^verbatim>\<open>meta\<close> of an article request and the record that \<^verbatim>\<open>parse_article\<close> yields.\<close>

record article_meta =
  meta_title :: ustring
  meta_snippet :: ustring
  meta_item_date :: "datetime option"

record output_record =
  title :: ustring
  url :: ustring
  snippet :: ustring
  fio :: "ustring option"
  position :: "ustring option"
  publication_date :: "ustring option"
  is_today :: bool
  relevant :: bool
  notification_header :: "ustring option"
  notification_text :: "ustring option"
  notification_source :: "ustring option"
  scraping_timestamp :: ustring
  raw_content :: ustring

text \<open>
  The two passes of \<^verbatim>\<open>parse_article\<close>: the result is the flag \<^verbatim>\<open>relevant\<close> and the local
  \<^verbatim>\<open>article_content\<close>, which is \<open>None\<close> when the first branch was taken and the variable was
  never assigned.
\<close>

definition relevance_passes ::
  "pylib \<Rightarrow> bool \<Rightarrow> ustring \<Rightarrow> article_response \<Rightarrow> bool \<times> ustring option" where
  "relevance_passes L today_flag title_text response =
     (let title_relevant = is_presidential_appointment L title_text
      in if today_flag \<and> title_relevant then (True, None)
         else
           (let article_content = extract_article_content response;
                description_relevant = is_presidential_appointment L article_content
            in if description_relevant then (True, Some article_content)
               else (False, Some article_content)))"

text \<open>
  \<^verbatim>\<open>parse_article\<close>. \<open>now\<close> is the clock read by \<^verbatim>\<open>extract_article_date\<close>, \<open>stamp\<close> the clock read
  for \<^verbatim>\<open>scraping_timestamp\<close>. An exception of \<^verbatim>\<open>extract_article_date\<close> ends the callback
  before anything is yielded.
\<close>

definition parse_article ::
  "pylib \<Rightarrow> datetime \<Rightarrow> datetime \<Rightarrow> datetime \<Rightarrow> article_response \<Rightarrow> article_meta \<Rightarrow>
     pyexc + output_record" where
  "parse_article L today now stamp response meta =
     (case extract_article_date L now response of
        Inl e \<Rightarrow> Inl e
      | Inr pub_date \<Rightarrow>
          (let today_flag = check_is_today today pub_date;
               (rel, article_content) =
                  relevance_passes L today_flag (meta_title meta) response;
               details =
                 (if rel then
                    (let full_text = meta_title meta @ [sp] @ meta_snippet meta @ [sp] @
                           (case article_content of Some c \<Rightarrow> c | None \<Rightarrow> []);
                         name = extract_fio full_text (meta_title meta);
                         pos = extract_position L full_text (meta_title meta)
                     in (Some name, Some pos,
                         Some (create_notification name pos (resp_url response))))
                  else (None, None, None))
           in case details of (name, pos, notif) \<Rightarrow>
             Inr \<lparr>title = meta_title meta,
                  url = resp_url response,
                  snippet = meta_snippet meta,
                  fio = name,
                  position = pos,
                  publication_date =
                    (case pub_date of Some d \<Rightarrow> Some (py_isoformat L d) | None \<Rightarrow> None),
                  is_today = today_flag,
                  relevant = rel,
                  notification_header = map_option ntf_header notif,
                  notification_text = map_option ntf_text notif,
                  notification_source = map_option ntf_source notif,
                  scraping_timestamp = py_isoformat L stamp,
                  raw_content =
                    (case article_content of
                       Some c \<Rightarrow> if c \<noteq> [] then take 1000 c else []
                     | None \<Rightarrow> [])\<rparr>))"

section \<open>The listing callback\<close>

text \<open>
  \<^verbatim>\<open>clean_url\<close>. The texts are \<^verbatim>\<open>&amp;\<close>, \<^verbatim>\<open>&\<close>, \<^verbatim>\<open>//\<close>, \<^verbatim>\<open>https:\<close>, \<^verbatim>\<open>/\<close>, \<^verbatim>\<open>http\<close> and the site
  \<^verbatim>\<open>https://belta.by\<close>.
\<close>

definition site_root :: ustring where
  "site_root = asc ''https://belta.by''"

definition clean_url :: "pylib \<Rightarrow> ustring option \<Rightarrow> ustring option" where
  "clean_url L link =
     (if \<not> truthy link then None
      else
        (let u = replace (asc ''&amp;'') (asc ''&'') (the link)
         in Some (if startswith u (asc ''//'') then asc ''https:'' @ u
                  else if startswith u (asc ''/'') then py_urljoin L site_root u
                  else if \<not> startswith u (asc ''http'') then py_urljoin L site_root u
                  else u)))"

text \<open>The \<^verbatim>\<open>meta\<close> of a listing request, and the requests a callback yields.\<close>

record listing_meta =
  page :: int
  continue_loading :: bool

datatype request =
    Listing_Request ustring listing_meta
  | Article_Request ustring article_meta

text \<open>
  A listing page: its \<^verbatim>\<open>.lenta_item\<close> elements in order, and the \<^verbatim>\<open>onclick\<close> attribute of each
  \<^verbatim>\<open>div.load_more\<close>.
\<close>

record listing_response =
  lenta_items :: "lenta_item list"
  load_more_onclick :: "ustring option list"

text \<open>
  The body of the loop over the items, after the date test: the steps that end in
  \<^verbatim>\<open>continue\<close> yield nothing. An exception ends the callback: one that leaves
  \<^verbatim>\<open>extract_item_date\<close>, the \<^verbatim>\<open>TypeError\<close> of a request without a URL (\<^verbatim>\<open>clean_url\<close> is called on a
  non-empty link, so it returns one), or the \<^verbatim>\<open>ValueError\<close> of a request whose URL has no
  scheme.
\<close>

datatype callback_error = Date_Error pyexc | Type_Error | Url_Error

definition item_requests ::
  "pylib \<Rightarrow> lenta_item \<Rightarrow> datetime option \<Rightarrow> callback_error + request list" where
  "item_requests L item item_date =
     (case title_span item of
        None \<Rightarrow> Inr []
      | Some texts \<Rightarrow>
          (let first_text = (case texts of [] \<Rightarrow> None | t # _ \<Rightarrow> Some t);
               title_text = (if truthy first_text then the first_text
                             else strip (join [sp] texts))
           in if title_text = [] then Inr []
              else if \<not> truthy (link_href item) then Inr []
              else
                (case clean_url L (link_href item) of
                   None \<Rightarrow> Inl Type_Error
                 | Some article_url \<Rightarrow>
                     (let snippet_text =
                            (case snippet_span item of
                               None \<Rightarrow> []
                             | Some ts \<Rightarrow> strip (join [sp] ts));
                          full_text = py_lower L (title_text @ [sp] @ snippet_text)
                      in if is_presidential_appointment L full_text
                         then (if request_url_ok L article_url
                               then Inr [Article_Request article_url
                                           \<lparr>meta_title = title_text, meta_snippet = snippet_text,
                                            meta_item_date = item_date\<rparr>]
                               else Inl Url_Error)
                         else Inr []))))"

text \<open>
  The loop over the items. It ends when the items are exhausted, at the \<^verbatim>\<open>break\<close> of the
  first item dated before today, or with an exception; it returns the requests yielded
  until then.
\<close>

datatype loop_exit = Exhausted | Found_previous_day | Raised callback_error

fun items_loop ::
  "(lenta_item \<Rightarrow> pyexc + datetime option) \<Rightarrow> pylib \<Rightarrow> datetime \<Rightarrow> lenta_item list \<Rightarrow>
     request list \<times> loop_exit" where
  "items_loop ext L today [] = ([], Exhausted)"
| "items_loop ext L today (item # rest) =
     (case ext item of
        Inl e \<Rightarrow> ([], Raised (Date_Error e))
      | Inr item_date \<Rightarrow>
          if (case item_date of
                None \<Rightarrow> False
              | Some d \<Rightarrow> date_before (date_of d) (date_of today))
          then ([], Found_previous_day)
          else
            (case item_requests L item item_date of
               Inl e \<Rightarrow> ([], Raised e)
             | Inr reqs \<Rightarrow>
                 (case items_loop ext L today rest of
                    (later, ex) \<Rightarrow> (reqs @ later, ex))))"

text \<open>
  The pattern \<^verbatim>\<open>get_page\('([^']+)'\<close> and the loop over the \<^verbatim>\<open>div.load_more\<close> elements, which
  yields the request for the next page at the first one whose \<^verbatim>\<open>onclick\<close> matches.
\<close>

definition GET_PAGE :: regex where
  "GET_PAGE =
     Seq (lit (asc ''get_page('')) (Seq (Lit 0x27)
       (Seq (Grp 1 (Plus (Cls (\<lambda>c. c \<noteq> 0x27)))) (Lit 0x27)))"

fun load_more_loop ::
  "pylib \<Rightarrow> int \<Rightarrow> ustring option list \<Rightarrow> callback_error + request list" where
  "load_more_loop L page_no [] = Inr []"
| "load_more_loop L page_no (onclick # divs) =
     (if truthy onclick \<and> contains (the onclick) (asc ''get_page('') then
        (case search (=) GET_PAGE (the onclick) of
           None \<Rightarrow> load_more_loop L page_no divs
         | Some (cs, _) \<Rightarrow>
             (let next_page_path = replace (asc ''&amp;'') (asc ''&'') (group cs 1);
                  next_url = py_urljoin L site_root next_page_path
              in if request_url_ok L next_url
                 then Inr [Listing_Request next_url
                             \<lparr>page = page_no + 1, continue_loading = True\<rparr>]
                 else Inl Url_Error))
      else load_more_loop L page_no divs)"

text \<open>
  \<^verbatim>\<open>parse_news_list\<close>, over the function that dates an item. The result is the list of the
  requests yielded, and the exception that ended the callback if there was one.
\<close>

definition parse_news_list_with ::
  "(lenta_item \<Rightarrow> pyexc + datetime option) \<Rightarrow> pylib \<Rightarrow> datetime \<Rightarrow> listing_meta \<Rightarrow>
     listing_response \<Rightarrow> request list \<times> callback_error option" where
  "parse_news_list_with ext L today meta response =
     (case items_loop ext L today (lenta_items response) of
        (reqs, Raised e) \<Rightarrow> (reqs, Some e)
      | (reqs, ex) \<Rightarrow>
          (let found_previous_day = (ex = Found_previous_day)
           in if continue_loading meta \<and> \<not> found_previous_day
              then (case load_more_loop L (page meta) (load_more_onclick response) of
                      Inl e \<Rightarrow> (reqs, Some e)
                    | Inr next_page \<Rightarrow> (reqs @ next_page, None))
              else (reqs, None)))"

definition parse_news_list ::
  "pylib \<Rightarrow> datetime \<Rightarrow> listing_meta \<Rightarrow> listing_response \<Rightarrow> request list \<times> callback_error option" where
  "parse_news_list L = parse_news_list_with (extract_item_date L) L"

section \<open>The crawl\<close>

text \<open>
  \<^verbatim>\<open>start_requests\<close> yields the request for \<^verbatim>\<open>https://belta.by/all_news/\<close>. The engine (not part
  of the spider) takes a pending request, downloads a page and calls the callback of the
  request on it, or drops the request (a failed download, a filtered duplicate). Which
  request comes next and what the site answers is not determined, so a step is a relation.
  The state holds the pending requests and the records emitted so far.
\<close>

definition start_requests :: "request list" where
  "start_requests =
     [Listing_Request (asc ''https://belta.by/all_news/'') \<lparr>page = 1, continue_loading = True\<rparr>]"

record crawl =
  pending :: "request list"
  emitted :: "output_record list"

definition crawl_start :: crawl where
  "crawl_start = \<lparr>pending = start_requests, emitted = []\<rparr>"

inductive crawl_step ::
  "(lenta_item \<Rightarrow> pyexc + datetime option) \<Rightarrow> pylib \<Rightarrow> datetime \<Rightarrow> crawl \<Rightarrow> crawl \<Rightarrow> bool"
  for ext :: "lenta_item \<Rightarrow> pyexc + datetime option" and L :: pylib and today :: datetime where
  listing:
    "pending s = before @ Listing_Request u m # after \<Longrightarrow>
     crawl_step ext L today s
       (s\<lparr>pending := before @ after @ fst (parse_news_list_with ext L today m response)\<rparr>)"
| article:
    "pending s = before @ Article_Request u m # after \<Longrightarrow>
     parse_article L today now stamp response m = Inr r \<Longrightarrow>
     crawl_step ext L today s (s\<lparr>pending := before @ after, emitted := emitted s @ [r]\<rparr>)"
| article_failed:
    "pending s = before @ Article_Request u m # after \<Longrightarrow>
     parse_article L today now stamp response m = Inl e \<Longrightarrow>
     crawl_step ext L today s (s\<lparr>pending := before @ after\<rparr>)"
| dropped:
    "pending s = before @ q # after \<Longrightarrow>
     crawl_step ext L today s (s\<lparr>pending := before @ after\<rparr>)"

inductive crawl_reachable ::
  "(lenta_item \<Rightarrow> pyexc + datetime option) \<Rightarrow> pylib \<Rightarrow> datetime \<Rightarrow> crawl \<Rightarrow> bool"
  for ext :: "lenta_item \<Rightarrow> pyexc + datetime option" and L :: pylib and today :: datetime where
  start: "crawl_reachable ext L today crawl_start"
| step: "crawl_reachable ext L today s \<Longrightarrow> crawl_step ext L today s t \<Longrightarrow>
         crawl_reachable ext L today t"

text \<open>
  Two tests on requests: whether a request is for a listing page, and what the listing
  callback has checked of an article request it yields.
\<close>

definition is_listing :: "request \<Rightarrow> bool" where
  "is_listing q = (case q of Listing_Request u m \<Rightarrow> True | Article_Request u m \<Rightarrow> False)"

definition classified :: "pylib \<Rightarrow> request \<Rightarrow> bool" where
  "classified L q =
     (case q of
        Listing_Request u m \<Rightarrow> False
      | Article_Request u m \<Rightarrow>
          is_presidential_appointment L (py_lower L (meta_title m @ [sp] @ meta_snippet m)))"

section \<open>An assumption on the library\<close>

text \<open>
  \<^verbatim>\<open>int\<close> of a text of at most four characters fits a C \<^verbatim>\<open>int\<close> (in Python its absolute
  value is at most 9999). \<^verbatim>\<open>parse_date_string\<close> passes such numbers to \<^verbatim>\<open>datetime\<close>.
\<close>

definition short_ints_fit :: "pylib \<Rightarrow> bool" where
  "short_ints_fit L \<longleftrightarrow> (\<forall>s v. length s \<le> 4 \<longrightarrow> py_int L s = Some v \<longrightarrow> c_int_ok v)"

section \<open>A sample library\<close>

text \<open>
  One instance of the library record, used to run the model on examples. It lowers the
  Latin and the Cyrillic capitals and leaves every other character alone, reads
  integers written in ASCII digits with an optional sign, joins a path to a base by
  concatenation, prints a date in the ISO format, accepts a URL that has \<^verbatim>\<open>://\<close> in it, and
  knows one \<^verbatim>\<open>strptime\<close> format. On the texts of the examples below it agrees with Python.
\<close>

definition sample_lower :: "uchar \<Rightarrow> uchar" where
  "sample_lower c =
     (if 0x41 \<le> c \<and> c \<le> 0x5A then c + 0x20
      else if 0x410 \<le> c \<and> c \<le> 0x42F then c + 0x20
      else if 0x400 \<le> c \<and> c \<le> 0x40F then c + 0x50
      else c)"

definition ascii_digit :: "uchar \<Rightarrow> bool" where
  "ascii_digit c \<longleftrightarrow> 0x30 \<le> c \<and> c \<le> 0x39"

definition digits_value :: "ustring \<Rightarrow> int" where
  "digits_value ds = foldl (\<lambda>acc c. 10 * acc + int (c - 0x30)) 0 ds"

definition sample_int :: "ustring \<Rightarrow> int option" where
  "sample_int s =
     (let t = strip s;
          neg = (t \<noteq> [] \<and> hd t = 0x2D);
          ds = (if t \<noteq> [] \<and> (hd t = 0x2D \<or> hd t = 0x2B) then tl t else t)
      in if ds \<noteq> [] \<and> list_all ascii_digit ds
         then Some (if neg then - digits_value ds else digits_value ds)
         else None)"

text \<open>\<^verbatim>\<open>strptime\<close> for the one format \<^verbatim>\<open>%d.%m.%Y\<close>, on ASCII digits.\<close>

definition sample_strptime :: "ustring \<Rightarrow> string \<Rightarrow> datetime option" where
  "sample_strptime s fmt =
     (if fmt = ''%d.%m.%Y'' then
        (case map sample_int (split_on 0x2E s) of
           [Some d, Some m, Some y] \<Rightarrow>
             (if list_all ascii_digit (filter (\<lambda>c. c \<noteq> 0x2E) s)
              then (case mk_datetime y m d 0 0 of Inr t \<Rightarrow> Some t | Inl e \<Rightarrow> None)
              else None)
         | _ \<Rightarrow> None)
      else None)"

text \<open>\<^verbatim>\<open>isoformat\<close>: \<^verbatim>\<open>YYYY-MM-DDTHH:MM:SS\<close>, and \<^verbatim>\<open>.ffffff\<close> after it when the microseconds are not 0.\<close>

fun pad :: "nat \<Rightarrow> nat \<Rightarrow> ustring" where
  "pad 0 n = []"
| "pad (Suc k) n = pad k (n div 10) @ [0x30 + n mod 10]"

definition sample_isoformat :: "datetime \<Rightarrow> ustring" where
  "sample_isoformat d =
     pad 4 (nat (dt_year d)) @ [0x2D] @ pad 2 (nat (dt_month d)) @ [0x2D] @ pad 2 (nat (dt_day d)) @
     [0x54] @ pad 2 (nat (dt_hour d)) @ [0x3A] @ pad 2 (nat (dt_minute d)) @ [0x3A] @
     pad 2 (nat (dt_second d)) @
     (if dt_microsecond d = 0 then [] else [0x2E] @ pad 6 (nat (dt_microsecond d)))"

definition sample_lib :: pylib where
  "sample_lib =
     \<lparr>py_lower = map sample_lower,
      py_int = sample_int,
      py_isdigit = ascii_digit,
      py_ci_eq = (\<lambda>k c. sample_lower k = sample_lower c),
      py_strptime = sample_strptime,
      py_urljoin = (\<lambda>base u. base @ u),
      py_isoformat = sample_isoformat,
      request_url_ok = (\<lambda>u. contains u [0x3A, 0x2F, 0x2F])\<rparr>"

section \<open>Example pages\<close>

text \<open>
  The crawl of the examples starts on 9 January 2026; \<open>ex_now\<close> is a later reading of the
  clock on that day, \<open>ex_yesterday\<close> is 8 January 2026, 19:51.
\<close>

definition ex_today :: datetime where
  "ex_today = \<lparr>dt_year = 2026, dt_month = 1, dt_day = 9, dt_hour = 8, dt_minute = 30,
                dt_second = 0, dt_microsecond = 0\<rparr>"

definition ex_now :: datetime where
  "ex_now = \<lparr>dt_year = 2026, dt_month = 1, dt_day = 9, dt_hour = 8, dt_minute = 31,
              dt_second = 7, dt_microsecond = 0\<rparr>"

definition ex_yesterday :: datetime where
  "ex_yesterday = \<lparr>dt_year = 2026, dt_month = 1, dt_day = 8, dt_hour = 19, dt_minute = 51,
                    dt_second = 0, dt_microsecond = 0\<rparr>"

text \<open>The title ``Prezident naznachil ministra'', which the classifier accepts.\<close>

definition ex_title :: ustring where
  "ex_title =
     [C_p, c_r, c_e, c_z, c_i, c_d, c_e, c_n, c_t, sp, c_n, c_a, c_z, c_n, c_a, c_ch, c_i, c_l,
      sp, c_m, c_i, c_n, c_i, c_s, c_t, c_r, c_a]"

definition ex_meta :: article_meta where
  "ex_meta = \<lparr>meta_title = ex_title, meta_snippet = [], meta_item_date = None\<rparr>"

text \<open>
  An article dated ``08 yanvarya 2026, 19:51'' in its \<^verbatim>\<open>.date_full\<close> block, with the body
  ``Segodnya v Minske proshyol kontsert.'', which the classifier rejects.
\<close>

definition ex_concert :: ustring where
  "ex_concert =
     [C_s, c_e, c_g, c_o, c_d, c_n, c_ya, sp, c_v, sp, C_m, c_i, c_n, c_s, c_k, c_e, sp, c_p,
      c_r, c_o, c_sh, c_yo, c_l, sp, c_k, c_o, c_n, c_ts, c_e, c_r, c_t, 0x2E]"

definition ex_old_article :: article_response where
  "ex_old_article =
     \<lparr>resp_url = asc ''https://belta.by/president/view/1'',
      date_full_text = Some
        [0x30, 0x38, sp, c_ya, c_n, c_v, c_a, c_r, c_ya, sp, 0x32, 0x30, 0x32, 0x36, 0x2C, sp,
         0x31, 0x39, 0x3A, 0x35, 0x31],
      date_selector_text = (\<lambda>sel. None),
      article_body = Some [ex_concert],
      content_paragraphs = (\<lambda>sel. None),
      all_paragraphs = []\<rparr>"

text \<open>
  An article with no date anywhere (so it is dated by the clock, today) and the body
  ``Ivan Petrov naznachen ministrom finansov.''.
\<close>

definition ex_body :: ustring where
  "ex_body =
     [C_i, c_v, c_a, c_n, sp, C_p, c_e, c_t, c_r, c_o, c_v, sp, c_n, c_a, c_z, c_n, c_a, c_ch,
      c_e, c_n, sp, c_m, c_i, c_n, c_i, c_s, c_t, c_r, c_o, c_m, sp, c_f, c_i, c_n, c_a, c_n,
      c_s, c_o, c_v, 0x2E]"

definition ex_today_article :: article_response where
  "ex_today_article =
     \<lparr>resp_url = asc ''https://belta.by/president/view/2'',
      date_full_text = None,
      date_selector_text = (\<lambda>sel. None),
      article_body = Some [ex_body],
      content_paragraphs = (\<lambda>sel. None),
      all_paragraphs = []\<rparr>"

text \<open>
  An article without a \<^verbatim>\<open>.date_full\<close> block whose \<^verbatim>\<open>.date\<close> element reads ``8 yanvarya 2026'', and
  one whose \<^verbatim>\<open>.date\<close> element reads \<^verbatim>\<open>08.01.2026\<close>.
\<close>

definition ex_long_date :: ustring where
  "ex_long_date =
     [0x38, sp, c_ya, c_n, c_v, c_a, c_r, c_ya, sp, 0x32, 0x30, 0x32, 0x36]"

definition ex_dated_article :: article_response where
  "ex_dated_article =
     ex_today_article\<lparr>date_selector_text :=
       (\<lambda>sel. if sel = Sel_date then Some ex_long_date else None)\<rparr>"

definition ex_dotted_date :: ustring where
  "ex_dotted_date = asc ''08.01.2026''"

definition ex_midnight :: datetime where
  "ex_midnight = \<lparr>dt_year = 2026, dt_month = 1, dt_day = 8, dt_hour = 0, dt_minute = 0,
                   dt_second = 0, dt_microsecond = 0\<rparr>"

text \<open>The definitions that the simplifier unfolds to run the model on an example.\<close>

named_theorems run

declare
  asc_def [run] is_space_def [run] lstrip_def [run] rstrip_def [run] strip_def [run]
  rstrip_chars_def [run] rmatch.simps(7) [run] group_def [run] c_int_ok_def [run]
  is_leap_def [run] days_in_month_def [run] mk_datetime_def [run] date_of_def [run]
  sample_lower_def [run] ascii_digit_def [run] digits_value_def [run] sample_int_def [run]
  sample_strptime_def [run] sample_isoformat_def [run] sample_lib_def [run] RELEVANT_CATEGORIES_def [run]
  APPOINTMENT_PATTERNS_def [run] is_presidential_appointment_def [run] Let_def [run]
  is_cyr_upper_def [run] is_cyr_lower_def [run] not_dot_def [run] cap_word_def [run]
  FIO_PATTERN_def [run] excluded_words_def [run] fio_sentinel_def [run] extract_fio_def [run]
  title_nouns_def [run] after_phrase_def [run] after_dash_def [run] POSITION_PATTERNS_def [run]
  position_keywords_def [run] keyword_pattern_def [run] position_sentinel_def [run]
  clean_position_def [run] extract_position_def [run] ru_months_def [run] DATE_RU_def [run]
  DATE_FULL_def [run] parse_date_full_format_def [run] date_formats_def [run]
  parse_date_string_def [run] date_selectors_def [run] content_selectors_def [run]
  body_text_def [run] extract_article_content_def [run] extract_article_date_def [run]
  check_is_today_def [run] notification_header_text_def [run] notification_intro_def [run]
  notification_middle_def [run] notification_ending_def [run] create_notification_def [run]
  relevance_passes_def [run] parse_article_def [run] site_root_def [run] clean_url_def [run]
  item_requests_def [run] GET_PAGE_def [run] parse_news_list_with_def [run]
  ex_today_def [run] ex_now_def [run] ex_yesterday_def [run] ex_title_def [run]
  ex_meta_def [run] ex_concert_def [run] ex_old_article_def [run] ex_body_def [run]
  ex_today_article_def [run] ex_long_date_def [run] ex_dated_article_def [run]
  ex_dotted_date_def [run]
  ex_midnight_def [run]

section \<open>Example listing\<close>

text \<open>
  Three items: the first and the third have the title of the examples, the snippet
  ``Podpisan ukaz.'' and a link; the second has the day text \<^verbatim>\<open>08\<close> and no title. The page has
  one \<^verbatim>\<open>div.load_more\<close>.
\<close>

definition ex_snippet :: ustring where
  "ex_snippet =
     [C_p, c_o, c_d, c_p, c_i, c_s, c_a, c_n, sp, c_u, c_k, c_a, c_z, 0x2E]"

definition ex_item :: "string \<Rightarrow> string \<Rightarrow> lenta_item" where
  "ex_item d path =
     \<lparr>new_date = True, day_text = Some (asc d), month_year_text = Some (asc ''01.26''),
      title_span = Some [ex_title], link_href = Some (asc path),
      snippet_span = Some [ex_snippet]\<rparr>"

definition ex_listing :: listing_response where
  "ex_listing =
     \<lparr>lenta_items =
        [ex_item ''09'' ''/president/view/2'',
         (ex_item ''08'' ''/president/view/1'')\<lparr>title_span := None\<rparr>,
         ex_item ''08'' ''/president/view/0''],
      load_more_onclick =
        [Some (asc ''return get_page('' @ [0x27] @
               asc ''/all_news/page/2/?day=08&amp;month=01&amp;year=26/'' @ [0x27] @
               asc '',inner,1);'')]\<rparr>"

definition ex_request :: "string \<Rightarrow> request" where
  "ex_request path =
     Article_Request (asc ''https://belta.by'' @ asc path)
       \<lparr>meta_title = ex_title, meta_snippet = ex_snippet, meta_item_date = None\<rparr>"

definition ex_next_page :: request where
  "ex_next_page =
     Listing_Request (asc ''https://belta.by/all_news/page/2/?day=08&month=01&year=26/'')
       \<lparr>page = 2, continue_loading = True\<rparr>"

declare
  ex_snippet_def [run] ex_item_def [run] ex_listing_def [run]
  ex_request_def [run] ex_next_page_def [run] start_requests_def [run]
  crawl_start_def [run]

section \<open>Example texts\<close>

text \<open>
  ``Sovet Ministrov Strany''; ``Prezident Aleksandr Lukashenko naznachil Ivan Ivanov
  ministrom'' and the two names that \<^verbatim>\<open>FIO_PATTERN\<close> finds in it.
\<close>

definition ex_council :: ustring where
  "ex_council =
     [C_s, c_o, c_v, c_e, c_t, sp, C_m, c_i, c_n, c_i, c_s, c_t, c_r, c_o, c_v, sp, C_s, c_t,
      c_r, c_a, c_n, c_y]"

definition ex_decision :: ustring where
  "ex_decision =
     [C_p, c_r, c_e, c_z, c_i, c_d, c_e, c_n, c_t, sp, C_a, c_l, c_e, c_k, c_s, c_a, c_n, c_d,
      c_r, sp, C_l, c_u, c_k, c_a, c_sh, c_e, c_n, c_k, c_o, sp, c_n, c_a, c_z, c_n, c_a, c_ch,
      c_i, c_l, sp, C_i, c_v, c_a, c_n, sp, C_i, c_v, c_a, c_n, c_o, c_v, sp, c_m, c_i, c_n,
      c_i, c_s, c_t, c_r, c_o, c_m]"

definition ex_head_of_state :: ustring where
  "ex_head_of_state =
     [C_p, c_r, c_e, c_z, c_i, c_d, c_e, c_n, c_t, sp, C_a, c_l, c_e, c_k, c_s, c_a, c_n, c_d,
      c_r, sp, C_l, c_u, c_k, c_a, c_sh, c_e, c_n, c_k, c_o]"

definition ex_name :: ustring where
  "ex_name =
     [C_i, c_v, c_a, c_n, sp, C_i, c_v, c_a, c_n, c_o, c_v]"

declare
  is_cap_word_def [run] fio_shape_def [run] has_excluded_def [run] is_listing_def [run]
  ex_council_def [run] ex_decision_def [run] ex_head_of_state_def [run] ex_name_def [run]

section \<open>The fallback of the position as the claim words it\<close>

text \<open>
  The fallback in the words of the claim: the first fragment of the text between full
  stops, in the order of the text, that contains one of the keywords in any letter case.
\<close>

fun startswith_ci :: "pylib \<Rightarrow> ustring \<Rightarrow> ustring \<Rightarrow> bool" where
  "startswith_ci L s [] = True"
| "startswith_ci L [] (k # ks) = False"
| "startswith_ci L (c # s) (k # ks) = (py_ci_eq L k c \<and> startswith_ci L s ks)"

fun contains_ci :: "pylib \<Rightarrow> ustring \<Rightarrow> ustring \<Rightarrow> bool" where
  "contains_ci L [] k = (k = [])"
| "contains_ci L (c # s) k = (startswith_ci L (c # s) k \<or> contains_ci L s k)"

definition claimed_fallback :: "pylib \<Rightarrow> ustring \<Rightarrow> ustring option" where
  "claimed_fallback L full_text =
     (case filter (\<lambda>fragment. list_ex (\<lambda>keyword. contains_ci L fragment keyword) position_keywords)
             (split_on 0x2E full_text) of
        [] \<Rightarrow> None
      | fragment # _ \<Rightarrow> Some (strip fragment))"

text \<open>
  ``On direktor. Ona ministr'' and its two sentences; ``naznachen ministrom'' and the phrase
  after its ``naznachen''; and ``Da''.
\<close>

definition ex_two_sentences :: ustring where
  "ex_two_sentences =
     [C_o, c_n, sp, c_d, c_i, c_r, c_e, c_k, c_t, c_o, c_r, 0x2E, sp, C_o, c_n, c_a, sp, c_m,
      c_i, c_n, c_i, c_s, c_t, c_r]"

definition ex_he_director :: ustring where
  "ex_he_director =
     [C_o, c_n, sp, c_d, c_i, c_r, c_e, c_k, c_t, c_o, c_r]"

definition ex_she_minister :: ustring where
  "ex_she_minister =
     [C_o, c_n, c_a, sp, c_m, c_i, c_n, c_i, c_s, c_t, c_r]"

definition ex_appointed :: ustring where
  "ex_appointed =
     [c_n, c_a, c_z, c_n, c_a, c_ch, c_e, c_n, sp, c_m, c_i, c_n, c_i, c_s, c_t, c_r, c_o, c_m]"

definition ex_minister :: ustring where
  "ex_minister =
     [c_m, c_i, c_n, c_i, c_s, c_t, c_r, c_o, c_m]"

definition ex_yes :: ustring where
  "ex_yes =
     [C_d, c_a]"

declare
  first_match_def [run] pattern_fails_def [run] claimed_fallback_def [run]
  ex_two_sentences_def [run] ex_he_director_def [run] ex_she_minister_def [run]
  ex_appointed_def [run] ex_minister_def [run] ex_yes_def [run]

text \<open>
  ``naznachen ya. naznachen poslom'', whose second pattern has the matches ``ya'' and
  ``poslom''.
\<close>

definition ex_twice_appointed :: ustring where
  "ex_twice_appointed =
     [c_n, c_a, c_z, c_n, c_a, c_ch, c_e, c_n, sp, c_ya, 0x2E, sp, c_n, c_a, c_z, c_n, c_a,
      c_ch, c_e, c_n, sp, c_p, c_o, c_s, c_l, c_o, c_m]"

declare ex_twice_appointed_def [run]

text \<open>
  ``na dolzhnost' sud'ej   suda ;:'': the phrase after ``na dolzhnost''' has a run of three
  spaces and ends with a space, a semicolon and a colon. Its words, and the phrase cleaned.
\<close>

definition ex_judge_phrase :: ustring where
  "ex_judge_phrase =
     [c_s, c_u, c_d, c_soft, c_e, c_j, sp, sp, sp, c_s, c_u, c_d, c_a, sp, 0x3B, 0x3A]"

definition ex_to_the_post :: ustring where
  "ex_to_the_post =
     [c_n, c_a, sp, c_d, c_o, c_l, c_zh, c_n, c_o, c_s, c_t, c_soft, sp] @ ex_judge_phrase"

definition ex_judge_words :: "ustring list" where
  "ex_judge_words = [[c_s, c_u, c_d, c_soft, c_e, c_j], [c_s, c_u, c_d, c_a], [0x3B, 0x3A]]"

definition ex_judge :: ustring where
  "ex_judge = [c_s, c_u, c_d, c_soft, c_e, c_j, sp, c_s, c_u, c_d, c_a, sp]"

declare
  ex_judge_phrase_def [run] ex_to_the_post_def [run] ex_judge_words_def [run] ex_judge_def [run]

section \<open>Verified properties\<close>

subsection \<open>Substrings\<close>

lemma startswith_iff: "startswith s p \<longleftrightarrow> (\<exists>ys. s = p @ ys)"
  by (induction s p rule: startswith.induct) auto

lemma contains_iff: "contains s p \<longleftrightarrow> (\<exists>xs ys. s = xs @ p @ ys)"
proof (induction s)
  case Nil
  then show ?case by auto
next
  case (Cons c s)
  show ?case
  proof
    assume "contains (c # s) p"
    then have "startswith (c # s) p \<or> contains s p" by simp
    then show "\<exists>xs ys. c # s = xs @ p @ ys"
    proof
      assume "startswith (c # s) p"
      then obtain ys where "c # s = [] @ p @ ys" by (auto simp: startswith_iff)
      then show ?thesis by blast
    next
      assume "contains s p"
      with Cons.IH obtain xs ys where "s = xs @ p @ ys" by blast
      then have "c # s = (c # xs) @ p @ ys" by simp
      then show ?thesis by blast
    qed
  next
    assume "\<exists>xs ys. c # s = xs @ p @ ys"
    then obtain xs ys where eq: "c # s = xs @ p @ ys" by blast
    show "contains (c # s) p"
    proof (cases xs)
      case Nil
      with eq have "startswith (c # s) p" by (auto simp: startswith_iff)
      then show ?thesis by simp
    next
      case (Cons x xs')
      with eq have "s = xs' @ p @ ys" by simp
      with Cons.IH have "contains s p" by blast
      then show ?thesis by simp
    qed
  qed
qed

subsection \<open>The classifier\<close>

text \<open>
  C4. \<open>is_presidential_appointment\<close> holds exactly when the lowered text has one of the
  category keywords as a substring and one of the appointment keywords as a substring. So a
  text that has a category keyword (as ukaz) and no appointment keyword is rejected, and
  a text whose lowered form has both ukaz and naznachenie is accepted.
\<close>

theorem is_presidential_appointment_iff:
  "(is_presidential_appointment L text \<longleftrightarrow>
      (\<exists>c \<in> set RELEVANT_CATEGORIES. \<exists>xs ys. py_lower L text = xs @ c @ ys) \<and>
      (\<exists>p \<in> set APPOINTMENT_PATTERNS. \<exists>xs ys. py_lower L text = xs @ p @ ys)) \<and>
   ((\<forall>p \<in> set APPOINTMENT_PATTERNS. \<not> (\<exists>xs ys. py_lower L text = xs @ p @ ys)) \<longrightarrow>
      \<not> is_presidential_appointment L text) \<and>
   ((\<exists>xs ys. py_lower L text = xs @ [c_u, c_k, c_a, c_z] @ ys) \<and>
    (\<exists>xs ys. py_lower L text = xs @ [c_n, c_a, c_z, c_n, c_a, c_ch, c_e, c_n, c_i, c_e] @ ys) \<longrightarrow>
      is_presidential_appointment L text)"
proof -
  have iff: "is_presidential_appointment L text \<longleftrightarrow>
      (\<exists>c \<in> set RELEVANT_CATEGORIES. \<exists>xs ys. py_lower L text = xs @ c @ ys) \<and>
      (\<exists>p \<in> set APPOINTMENT_PATTERNS. \<exists>xs ys. py_lower L text = xs @ p @ ys)"
    by (simp add: is_presidential_appointment_def Let_def list_ex_iff contains_iff)
  have ukaz: "[c_u, c_k, c_a, c_z] \<in> set RELEVANT_CATEGORIES"
    by (simp add: RELEVANT_CATEGORIES_def)
  have nazn: "[c_n, c_a, c_z, c_n, c_a, c_ch, c_e, c_n, c_i, c_e] \<in> set APPOINTMENT_PATTERNS"
    by (simp add: APPOINTMENT_PATTERNS_def)
  show ?thesis
  proof (intro conjI impI)
    show "is_presidential_appointment L text \<longleftrightarrow>
      (\<exists>c \<in> set RELEVANT_CATEGORIES. \<exists>xs ys. py_lower L text = xs @ c @ ys) \<and>
      (\<exists>p \<in> set APPOINTMENT_PATTERNS. \<exists>xs ys. py_lower L text = xs @ p @ ys)"
      by (rule iff)
  next
    assume "\<forall>p \<in> set APPOINTMENT_PATTERNS. \<not> (\<exists>xs ys. py_lower L text = xs @ p @ ys)"
    then show "\<not> is_presidential_appointment L text"
      unfolding iff by blast
  next
    assume "(\<exists>xs ys. py_lower L text = xs @ [c_u, c_k, c_a, c_z] @ ys) \<and>
      (\<exists>xs ys. py_lower L text = xs @ [c_n, c_a, c_z, c_n, c_a, c_ch, c_e, c_n, c_i, c_e] @ ys)"
    with ukaz nazn show "is_presidential_appointment L text"
      unfolding iff by blast
  qed
qed

text \<open>
  The classifier run on two texts: ``Ukaz o pomilovanii'' has the category keyword ukaz and
  no appointment keyword and is rejected; ``Ukaz: Naznachenie sud'i'' has ukaz and
  naznachenie once lowered and is accepted.
\<close>

theorem is_presidential_appointment_iff_witness:
  "list_all (\<lambda>p. \<not> contains (py_lower sample_lib
        [C_u, c_k, c_a, c_z, sp, c_o, sp, c_p, c_o, c_m, c_i, c_l, c_o, c_v, c_a, c_n, c_i, c_i]) p)
      APPOINTMENT_PATTERNS \<and>
   \<not> is_presidential_appointment sample_lib
        [C_u, c_k, c_a, c_z, sp, c_o, sp, c_p, c_o, c_m, c_i, c_l, c_o, c_v, c_a, c_n, c_i, c_i] \<and>
   contains (py_lower sample_lib
        [C_u, c_k, c_a, c_z, 0x3A, sp, C_n, c_a, c_z, c_n, c_a, c_ch, c_e, c_n, c_i, c_e, sp,
         c_s, c_u, c_d, c_soft, c_i]) [c_u, c_k, c_a, c_z] \<and>
   contains (py_lower sample_lib
        [C_u, c_k, c_a, c_z, 0x3A, sp, C_n, c_a, c_z, c_n, c_a, c_ch, c_e, c_n, c_i, c_e, sp,
         c_s, c_u, c_d, c_soft, c_i]) [c_n, c_a, c_z, c_n, c_a, c_ch, c_e, c_n, c_i, c_e] \<and>
   is_presidential_appointment sample_lib
        [C_u, c_k, c_a, c_z, 0x3A, sp, C_n, c_a, c_z, c_n, c_a, c_ch, c_e, c_n, c_i, c_e, sp,
         c_s, c_u, c_d, c_soft, c_i]"
proof -
  let ?t1 = "[C_u, c_k, c_a, c_z, sp, c_o, sp, c_p, c_o, c_m, c_i, c_l, c_o, c_v, c_a, c_n, c_i, c_i]"
  let ?t2 = "[C_u, c_k, c_a, c_z, 0x3A, sp, C_n, c_a, c_z, c_n, c_a, c_ch, c_e, c_n, c_i, c_e, sp,
         c_s, c_u, c_d, c_soft, c_i]"
  have a: "list_all (\<lambda>p. \<not> contains (py_lower sample_lib ?t1) p) APPOINTMENT_PATTERNS"
    by (simp add: APPOINTMENT_PATTERNS_def sample_lib_def sample_lower_def)
  have b: "contains (py_lower sample_lib ?t2) [c_u, c_k, c_a, c_z]"
    by (simp add: sample_lib_def sample_lower_def)
  have c: "contains (py_lower sample_lib ?t2) [c_n, c_a, c_z, c_n, c_a, c_ch, c_e, c_n, c_i, c_e]"
    by (simp add: sample_lib_def sample_lower_def)
  from a have "\<not> is_presidential_appointment sample_lib ?t1"
    using is_presidential_appointment_iff [of sample_lib ?t1]
    by (simp only: list_all_iff contains_iff) blast
  moreover from b c have "is_presidential_appointment sample_lib ?t2"
    using is_presidential_appointment_iff [of sample_lib ?t2]
    by (simp only: contains_iff) blast
  ultimately show ?thesis using a b c by simp
qed

subsection \<open>The date of a listing item\<close>

lemma replace_Nil: "replace old new [] = []"
  by (subst replace.simps) (cases old; simp)

lemma replace_single_Cons:
  "replace [c] new (x # s) = (if x = c then new @ replace [c] new s else x # replace [c] new s)"
  by (subst replace.simps) simp

lemma replace_single_char: "replace [c] [] s = filter (\<lambda>x. x \<noteq> c) s"
  by (induction s) (simp_all add: replace_Nil replace_single_Cons)

lemma set_strip: "set (strip s) \<subseteq> set s"
proof -
  have "set (rstrip t) \<subseteq> set t" for t
    using set_dropWhileD [of _ is_space "rev t"] by (auto simp: rstrip_def)
  moreover have "set (lstrip s) \<subseteq> set s"
    using set_dropWhileD [of _ is_space s] by (auto simp: lstrip_def)
  ultimately show ?thesis unfolding strip_def by blast
qed

lemma split_on_no_sep: "sep \<notin> set s \<Longrightarrow> split_on sep s = [s]"
  by (induction s) auto

text \<open>
  \<open>extract_item_date\<close> deletes every full stop from the month-year text and then splits the
  text at full stops, so the split has one part and the test for two parts fails: the
  function returns \<^verbatim>\<open>None\<close> on every item.
\<close>

lemma extract_item_date_None: "extract_item_date L item = Inr None"
proof -
  let ?my = "strip (replace [0x2E] [] (strip (the (month_year_text item))))"
  have "0x2E \<notin> set (replace [0x2E] [] (strip (the (month_year_text item))))"
    by (simp add: replace_single_char)
  with set_strip [of "replace [0x2E] [] (strip (the (month_year_text item)))"]
  have "0x2E \<notin> set ?my" by blast
  then have "split_on 0x2E ?my = [?my]" by (rule split_on_no_sep)
  then show ?thesis by (simp add: extract_item_date_def Let_def)
qed

text \<open>
  C2. The two items of the claim, day 09 with month-year 01.26 and day 15 with month-year
  06.72: the code returns \<^verbatim>\<open>None\<close> for both, where the claim has the dates 2026-01-09 and
  1972-06-15.
\<close>

theorem extract_item_date_examples:
  "extract_item_date L
      (item\<lparr>new_date := True, day_text := Some [0x30, 0x39],
            month_year_text := Some [0x30, 0x31, 0x2E, 0x32, 0x36]\<rparr>) = Inr None \<and>
   extract_item_date L
      (item\<lparr>new_date := True, day_text := Some [0x31, 0x35],
            month_year_text := Some [0x30, 0x36, 0x2E, 0x37, 0x32]\<rparr>) = Inr None"
  by (simp add: extract_item_date_None)

subsection \<open>The article callback\<close>

lemma date_selectors_loop_cases:
  "(\<exists>e. date_selectors_loop L response sels = Inl e) \<or>
   date_selectors_loop L response sels = Inr None \<or>
   (\<exists>d. date_selectors_loop L response sels = Inr (Some d))"
  by (cases "date_selectors_loop L response sels") (auto intro: option.exhaust)

lemma extract_article_date_cases:
  "(\<exists>e. extract_article_date L now response = Inl e) \<or>
   (\<exists>d. extract_article_date L now response = Inr (Some d))"
  unfolding extract_article_date_def Let_def
  by (auto split: option.splits sum.splits)

text \<open>The fields of the record that \<open>parse_article\<close> yields, in terms of its inputs.\<close>

lemma parse_article_fields:
  assumes "parse_article L today now stamp response meta = Inr r"
  shows "\<exists>pub. extract_article_date L now response = Inr (Some pub) \<and>
     is_today r = (date_of pub = date_of today) \<and>
     publication_date r = Some (py_isoformat L pub) \<and>
     relevant r = fst (relevance_passes L (is_today r) (meta_title meta) response) \<and>
     raw_content r =
       (case snd (relevance_passes L (is_today r) (meta_title meta) response) of
          Some c \<Rightarrow> if c \<noteq> [] then take 1000 c else []
        | None \<Rightarrow> []) \<and>
     title r = meta_title meta \<and> snippet r = meta_snippet meta \<and> url r = resp_url response"
proof -
  from assms obtain pd where pd: "extract_article_date L now response = Inr pd"
    by (cases "extract_article_date L now response") (auto simp: parse_article_def)
  with extract_article_date_cases [of L now response] obtain pub where pub: "pd = Some pub"
    by auto
  obtain rel ac where rp:
    "relevance_passes L (check_is_today today (Some pub)) (meta_title meta) response = (rel, ac)"
    by (cases "relevance_passes L (check_is_today today (Some pub)) (meta_title meta) response")
  from assms pd pub rp show ?thesis
    by (auto simp: parse_article_def Let_def check_is_today_def split: prod.splits if_splits)
qed
subsection \<open>The publication date\<close>

lemma date_ru_group_lengths:
  assumes "search (=) (DATE_RU L) s = Some (cs, m, rest)"
  shows "length (group cs 1) \<le> 2" and "length (group cs 3) \<le> 4"
proof -
  have "group cs 1 = [] \<or> group cs 1 \<in> lang (=) (Rep True (Cls (py_isdigit L)) 1 (Some 2))"
    using search_group [OF assms, of 1] by (simp add: DATE_RU_def)
  then show "length (group cs 1) \<le> 2"
    by (auto dest: lang_Rep_Cls_length)
  have "group cs 3 = [] \<or> group cs 3 \<in> lang (=) (Rep True (Cls (py_isdigit L)) 4 (Some 4))"
    using search_group [OF assms, of 3] by (simp add: DATE_RU_def)
  then show "length (group cs 3) \<le> 4"
    by (auto dest: lang_Rep_Cls_length)
qed

lemma ru_months_range: "map_of ru_months k = Some m \<Longrightarrow> 1 \<le> m \<and> m \<le> 12"
  by (auto simp: ru_months_def split: if_splits)

lemma mk_datetime_no_overflow:
  "c_int_ok y \<Longrightarrow> c_int_ok m \<Longrightarrow> c_int_ok d \<Longrightarrow> mk_datetime y m d 0 0 \<noteq> Inl OverflowError"
  by (simp add: mk_datetime_def c_int_ok_def)

lemma short_ints_fitD:
  "short_ints_fit L \<Longrightarrow> length s \<le> 4 \<Longrightarrow> py_int L s = Some v \<Longrightarrow> c_int_ok v"
  unfolding short_ints_fit_def by blast

lemma parse_date_string_total:
  assumes "short_ints_fit L"
  shows "\<exists>r. parse_date_string L s = Inr r"
proof (cases "s = []")
  case True
  then show ?thesis by (simp add: parse_date_string_def)
next
  case ne: False
  show ?thesis
  proof (cases "formats_loop L (strip s) date_formats")
    case (Some d)
    with ne show ?thesis by (simp add: parse_date_string_def Let_def)
  next
    case fl: None
    show ?thesis
    proof (cases "search (=) (DATE_RU L) (py_lower L (strip s))")
      case None
      with ne fl show ?thesis by (simp add: parse_date_string_def Let_def)
    next
      case (Some x)
      obtain cs m rest where x: "x = (cs, m, rest)" by (cases x) auto
      note se = Some [unfolded x]
      show ?thesis
      proof (cases "map_of ru_months (group cs 2)")
        case None
        with ne fl se show ?thesis by (simp add: parse_date_string_def Let_def)
      next
        case mo: (Some month_n)
        show ?thesis
        proof (cases "py_int L (group cs 3)")
          case None
          with ne fl se mo show ?thesis by (simp add: parse_date_string_def Let_def)
        next
          case ye: (Some year_n)
          show ?thesis
          proof (cases "py_int L (group cs 1)")
            case None
            with ne fl se mo ye show ?thesis by (simp add: parse_date_string_def Let_def)
          next
            case da: (Some day_n)
            have "c_int_ok year_n"
              using short_ints_fitD [OF assms date_ru_group_lengths(2) [OF se] ye] .
            moreover have "length (group cs 1) \<le> 4"
              using date_ru_group_lengths(1) [OF se] by simp
            then have "c_int_ok day_n"
              using short_ints_fitD [OF assms _ da] by blast
            moreover from ru_months_range [OF mo] have "c_int_ok month_n"
              by (simp add: c_int_ok_def)
            ultimately have "mk_datetime year_n month_n day_n 0 0 \<noteq> Inl OverflowError"
              by (simp add: mk_datetime_no_overflow)
            then have "\<exists>r. (case mk_datetime year_n month_n day_n 0 0 of
                Inl ValueError \<Rightarrow> Inr None
              | Inl OverflowError \<Rightarrow> Inl OverflowError
              | Inr d \<Rightarrow> Inr (Some d)) = (Inr r :: pyexc + datetime option)"
              by (cases "mk_datetime year_n month_n day_n 0 0") (auto split: pyexc.splits)
            with ne fl se mo ye da show ?thesis by (simp add: parse_date_string_def Let_def)
          qed
        qed
      qed
    qed
  qed
qed

lemma date_selectors_loop_total:
  assumes "short_ints_fit L"
  shows "\<exists>r. date_selectors_loop L response sels = Inr r"
proof (induction sels)
  case Nil
  show ?case by simp
next
  case (Cons sel sels)
  show ?case
  proof (cases "truthy (date_selector_text response sel)")
    case False
    with Cons show ?thesis by simp
  next
    case True
    from parse_date_string_total [OF assms] obtain r where
      "parse_date_string L (strip (the (date_selector_text response sel))) = Inr r" by blast
    with True Cons show ?thesis by (cases r) (simp_all add: Let_def)
  qed
qed

lemma extract_article_date_total:
  assumes "short_ints_fit L"
  shows "\<exists>d. extract_article_date L now response = Inr (Some d)"
proof -
  from date_selectors_loop_total [OF assms] obtain r where
    "date_selectors_loop L response date_selectors = Inr r" by blast
  then show ?thesis
    unfolding extract_article_date_def Let_def
    by (cases r) (auto split: option.splits)
qed

lemma parse_article_total:
  assumes "short_ints_fit L"
  shows "\<exists>r. parse_article L today now stamp response meta = Inr r"
proof -
  from extract_article_date_total [OF assms] obtain d where
    "extract_article_date L now response = Inr (Some d)" by blast
  then show ?thesis
    by (simp add: parse_article_def Let_def split: prod.splits)
qed

lemma formats_loop_first:
  assumes "i < length fmts" and "\<forall>j<i. py_strptime L s (fmts ! j) = None"
    and "py_strptime L s (fmts ! i) = Some d"
  shows "formats_loop L s fmts = Some d"
  using assms
proof (induction fmts arbitrary: i)
  case Nil
  then show ?case by simp
next
  case (Cons f fmts)
  show ?case
  proof (cases i)
    case 0
    with Cons.prems show ?thesis by simp
  next
    case (Suc k)
    with Cons.prems have "py_strptime L s f = None" by auto
    moreover from Suc Cons.prems have "formats_loop L s fmts = Some d"
      by (intro Cons.IH [of k]) auto
    ultimately show ?thesis by simp
  qed
qed

lemma formats_loop_none:
  "\<forall>f \<in> set fmts. py_strptime L s f = None \<Longrightarrow> formats_loop L s fmts = None"
  by (induction fmts) auto

lemma parse_date_string_month_name:
  assumes "s \<noteq> []" and "\<forall>f \<in> set date_formats. py_strptime L (strip s) f = None"
    and "search (=) (DATE_RU L) (py_lower L (strip s)) = Some (caps, matched, tail)"
    and "map_of ru_months (group caps 2) = Some month_n"
    and "py_int L (group caps 3) = Some year_n"
    and "py_int L (group caps 1) = Some day_n"
    and "mk_datetime year_n month_n day_n 0 0 = Inr dt"
  shows "parse_date_string L s = Inr (Some dt)"
  using assms formats_loop_none [of date_formats L "strip s"]
  by (simp add: parse_date_string_def Let_def)

lemma parse_date_string_format:
  assumes "s \<noteq> []" and "formats_loop L (strip s) date_formats = Some d"
  shows "parse_date_string L s = Inr (Some d)"
  using assms by (simp add: parse_date_string_def Let_def)

text \<open>A selector fails when it selects no text, or a text that \<open>parse_date_string\<close> cannot read.\<close>

lemma date_selectors_loop_first:
  assumes "i < length sels"
    and "\<forall>j<i. \<not> truthy (date_selector_text response (sels ! j)) \<or>
           parse_date_string L (strip (the (date_selector_text response (sels ! j)))) = Inr None"
    and "truthy (date_selector_text response (sels ! i))"
    and "parse_date_string L (strip (the (date_selector_text response (sels ! i)))) = Inr (Some d)"
  shows "date_selectors_loop L response sels = Inr (Some d)"
  using assms
proof (induction sels arbitrary: i)
  case Nil
  then show ?case by simp
next
  case (Cons sel sels)
  show ?case
  proof (cases i)
    case 0
    with Cons.prems show ?thesis by (simp add: Let_def)
  next
    case (Suc k)
    with Cons.prems(2) have here: "\<not> truthy (date_selector_text response sel) \<or>
           parse_date_string L (strip (the (date_selector_text response sel))) = Inr None"
      by auto
    from Suc Cons.prems have "date_selectors_loop L response sels = Inr (Some d)"
      by (intro Cons.IH [of k]) auto
    with here show ?thesis by (auto simp: Let_def)
  qed
qed

lemma date_selectors_loop_all_fail:
  assumes "\<forall>sel \<in> set sels. \<not> truthy (date_selector_text response sel) \<or>
           parse_date_string L (strip (the (date_selector_text response sel))) = Inr None"
  shows "date_selectors_loop L response sels = Inr None"
  using assms by (induction sels) (auto simp: Let_def)

lemma extract_article_date_primary:
  assumes "truthy (date_full_text response)"
    and "parse_date_full_format L (strip (the (date_full_text response))) = Some d"
  shows "extract_article_date L now response = Inr (Some d)"
  using assms by (simp add: extract_article_date_def Let_def)

lemma extract_article_date_fallback:
  assumes "\<not> truthy (date_full_text response) \<or>
           parse_date_full_format L (strip (the (date_full_text response))) = None"
  shows "extract_article_date L now response =
     (case date_selectors_loop L response date_selectors of
        Inr None \<Rightarrow> Inr (Some now)
      | other \<Rightarrow> other)"
  using assms
  by (auto simp: extract_article_date_def Let_def split: sum.splits option.splits)

text \<open>
  C5. \<open>extract_article_date\<close> never returns \<^verbatim>\<open>None\<close>, and it returns a date whenever \<^verbatim>\<open>int\<close> of a
  short text fits a C \<^verbatim>\<open>int\<close>. The date is the one read from the \<^verbatim>\<open>.date_full\<close> text when that
  parses; otherwise the one of the first fallback selector, in the order of
  \<^verbatim>\<open>date_selectors\<close>, whose text \<open>parse_date_string\<close> reads (by the first \<^verbatim>\<open>strptime\<close> format, in
  the order of \<^verbatim>\<open>date_formats\<close>, that parses the text, or when no format does by the search
  for a day, a month name and a year); and the current time when all of them fail. So the \<^verbatim>\<open>publication_date\<close> of a record that \<open>parse_article\<close> yields is never \<^verbatim>\<open>None\<close>.
\<close>

theorem extract_article_date_never_absent:
  "extract_article_date L now response \<noteq> Inr None \<and>
   (short_ints_fit L \<longrightarrow> (\<exists>d. extract_article_date L now response = Inr (Some d))) \<and>
   (truthy (date_full_text response) \<and>
    parse_date_full_format L (strip (the (date_full_text response))) = Some d \<longrightarrow>
      extract_article_date L now response = Inr (Some d)) \<and>
   ((\<not> truthy (date_full_text response) \<or>
     parse_date_full_format L (strip (the (date_full_text response))) = None) \<and>
    i < length date_selectors \<and>
    (\<forall>j<i. \<not> truthy (date_selector_text response (date_selectors ! j)) \<or>
       parse_date_string L (strip (the (date_selector_text response (date_selectors ! j)))) = Inr None) \<and>
    truthy (date_selector_text response (date_selectors ! i)) \<and>
    parse_date_string L (strip (the (date_selector_text response (date_selectors ! i)))) = Inr (Some d) \<longrightarrow>
      extract_article_date L now response = Inr (Some d)) \<and>
   ((\<not> truthy (date_full_text response) \<or>
     parse_date_full_format L (strip (the (date_full_text response))) = None) \<and>
    (\<forall>sel \<in> set date_selectors. \<not> truthy (date_selector_text response sel) \<or>
       parse_date_string L (strip (the (date_selector_text response sel))) = Inr None) \<longrightarrow>
      extract_article_date L now response = Inr (Some now)) \<and>
   (s \<noteq> [] \<and> k < length date_formats \<and>
    (\<forall>j<k. py_strptime L (strip s) (date_formats ! j) = None) \<and>
    py_strptime L (strip s) (date_formats ! k) = Some d \<longrightarrow>
      parse_date_string L s = Inr (Some d)) \<and>
   (s \<noteq> [] \<and> (\<forall>f \<in> set date_formats. py_strptime L (strip s) f = None) \<and>
    search (=) (DATE_RU L) (py_lower L (strip s)) = Some (caps, matched, tail) \<and>
    map_of ru_months (group caps 2) = Some month_n \<and>
    py_int L (group caps 3) = Some year_n \<and> py_int L (group caps 1) = Some day_n \<and>
    mk_datetime year_n month_n day_n 0 0 = Inr d \<longrightarrow>
      parse_date_string L s = Inr (Some d)) \<and>
   (parse_article L today now stamp response meta = Inr r \<longrightarrow> publication_date r \<noteq> None)"
proof (intro conjI impI)
  show "extract_article_date L now response \<noteq> Inr None"
    using extract_article_date_cases [of L now response] by auto
next
  assume "short_ints_fit L"
  then show "\<exists>d. extract_article_date L now response = Inr (Some d)"
    by (rule extract_article_date_total)
next
  assume "truthy (date_full_text response) \<and>
    parse_date_full_format L (strip (the (date_full_text response))) = Some d"
  then show "extract_article_date L now response = Inr (Some d)"
    by (simp add: extract_article_date_primary)
next
  assume a: "(\<not> truthy (date_full_text response) \<or>
     parse_date_full_format L (strip (the (date_full_text response))) = None) \<and>
    i < length date_selectors \<and>
    (\<forall>j<i. \<not> truthy (date_selector_text response (date_selectors ! j)) \<or>
       parse_date_string L (strip (the (date_selector_text response (date_selectors ! j)))) = Inr None) \<and>
    truthy (date_selector_text response (date_selectors ! i)) \<and>
    parse_date_string L (strip (the (date_selector_text response (date_selectors ! i)))) = Inr (Some d)"
  then have "date_selectors_loop L response date_selectors = Inr (Some d)"
    by (intro date_selectors_loop_first [of i]) blast+
  with a show "extract_article_date L now response = Inr (Some d)"
    by (simp add: extract_article_date_fallback)
next
  assume a: "(\<not> truthy (date_full_text response) \<or>
     parse_date_full_format L (strip (the (date_full_text response))) = None) \<and>
    (\<forall>sel \<in> set date_selectors. \<not> truthy (date_selector_text response sel) \<or>
       parse_date_string L (strip (the (date_selector_text response sel))) = Inr None)"
  then have "date_selectors_loop L response date_selectors = Inr None"
    by (intro date_selectors_loop_all_fail) blast
  with a show "extract_article_date L now response = Inr (Some now)"
    by (simp add: extract_article_date_fallback)
next
  assume a: "s \<noteq> [] \<and> k < length date_formats \<and>
    (\<forall>j<k. py_strptime L (strip s) (date_formats ! j) = None) \<and>
    py_strptime L (strip s) (date_formats ! k) = Some d"
  then have "formats_loop L (strip s) date_formats = Some d"
    by (intro formats_loop_first [of k]) blast+
  with a show "parse_date_string L s = Inr (Some d)"
    by (simp add: parse_date_string_format)
next
  assume "s \<noteq> [] \<and> (\<forall>f \<in> set date_formats. py_strptime L (strip s) f = None) \<and>
    search (=) (DATE_RU L) (py_lower L (strip s)) = Some (caps, matched, tail) \<and>
    map_of ru_months (group caps 2) = Some month_n \<and>
    py_int L (group caps 3) = Some year_n \<and> py_int L (group caps 1) = Some day_n \<and>
    mk_datetime year_n month_n day_n 0 0 = Inr d"
  then show "parse_date_string L s = Inr (Some d)"
    by (intro parse_date_string_month_name [of s L caps matched tail month_n year_n day_n d]) blast+
next
  assume "parse_article L today now stamp response meta = Inr r"
  from parse_article_fields [OF this] show "publication_date r \<noteq> None" by auto
qed

lemma digits_value_snoc: "digits_value (ds @ [c]) = 10 * digits_value ds + int (c - 0x30)"
  by (simp add: digits_value_def)

lemma digits_value_bound:
  "list_all ascii_digit ds \<Longrightarrow> 0 \<le> digits_value ds \<and> digits_value ds < 10 ^ length ds"
proof (induction ds rule: rev_induct)
  case Nil
  show ?case by (simp add: digits_value_def)
next
  case (snoc c ds)
  then have ih: "0 \<le> digits_value ds" "digits_value ds < 10 ^ length ds"
    and c: "ascii_digit c" by simp_all
  from c have "int (c - 0x30) \<le> 9" by (simp add: ascii_digit_def)
  with ih show ?case by (simp add: digits_value_snoc)
qed

lemma length_strip: "length (strip s) \<le> length s"
proof -
  have "length (rstrip t) \<le> length t" for t
    using length_dropWhile_le [of is_space "rev t"] by (simp add: rstrip_def)
  moreover have "length (lstrip s) \<le> length s"
    by (simp add: lstrip_def length_dropWhile_le)
  ultimately show ?thesis unfolding strip_def using le_trans by blast
qed

lemma sample_int_small:
  assumes "length s \<le> 4" and "sample_int s = Some v"
  shows "c_int_ok v"
proof -
  define t where "t = strip s"
  define ds where "ds = (if t \<noteq> [] \<and> (hd t = 0x2D \<or> hd t = 0x2B) then tl t else t)"
  from assms(2) have dig: "list_all ascii_digit ds" and v: "v = digits_value ds \<or> v = - digits_value ds"
    by (auto simp: sample_int_def Let_def t_def ds_def split: if_splits)
  have "length ds \<le> length t" by (simp add: ds_def)
  also have "\<dots> \<le> length s" unfolding t_def by (rule length_strip)
  finally have len: "length ds \<le> 4" using assms(1) by simp
  from digits_value_bound [OF dig] have b: "0 \<le> digits_value ds" "digits_value ds < 10 ^ length ds"
    by simp_all
  have "(10::int) ^ length ds \<le> 10 ^ 4"
    using len by (intro power_increasing) simp_all
  with b have "digits_value ds < 10000" by simp
  with b(1) v show ?thesis by (auto simp: c_int_ok_def)
qed

lemma sample_short_ints_fit: "short_ints_fit sample_lib"
  unfolding short_ints_fit_def using sample_int_small by (simp add: sample_lib_def)

text \<open>
  The sample library has the property assumed of \<^verbatim>\<open>int\<close>. The article dated in its
  \<^verbatim>\<open>.date_full\<close> block gets that date; the one dated in its \<^verbatim>\<open>.date\<close> element only (the second
  selector) gets the date read there; the one with no date gets the current time; the text
  \<^verbatim>\<open>08.01.2026\<close> is read by the fourth format and the text ``8 yanvarya 2026'', which no
  format reads, by the search for a month name; and the record of the first article carries
  its date.
\<close>

theorem extract_article_date_never_absent_witness:
  "short_ints_fit sample_lib \<and>
   extract_article_date sample_lib ex_now ex_old_article = Inr (Some ex_yesterday) \<and>
   extract_article_date sample_lib ex_now ex_dated_article = Inr (Some ex_midnight) \<and>
   extract_article_date sample_lib ex_now ex_today_article = Inr (Some ex_now) \<and>
   parse_date_string sample_lib ex_dotted_date = Inr (Some ex_midnight) \<and>
   parse_date_string sample_lib ex_long_date = Inr (Some ex_midnight) \<and>
   (\<exists>r. parse_article sample_lib ex_today ex_now ex_now ex_old_article ex_meta = Inr r \<and>
        publication_date r \<noteq> None)"
proof -
  note main = extract_article_date_never_absent
  have fit: "short_ints_fit sample_lib" by (rule sample_short_ints_fit)
  have a: "extract_article_date sample_lib ex_now ex_old_article = Inr (Some ex_yesterday)"
    by (rule main [where d = ex_yesterday, THEN conjunct2, THEN conjunct2, THEN conjunct1, THEN mp])
       (simp add: run)
  have b: "extract_article_date sample_lib ex_now ex_dated_article = Inr (Some ex_midnight)"
    by (rule main [where d = ex_midnight and i = 1, THEN conjunct2, THEN conjunct2, THEN conjunct2,
          THEN conjunct1, THEN mp])
       (simp add: run)
  have c: "extract_article_date sample_lib ex_now ex_today_article = Inr (Some ex_now)"
    by (rule main [THEN conjunct2, THEN conjunct2, THEN conjunct2, THEN conjunct2,
          THEN conjunct1, THEN mp])
       (simp add: run)
  have d: "parse_date_string sample_lib ex_dotted_date = Inr (Some ex_midnight)"
    by (rule main [where k = 3, THEN conjunct2, THEN conjunct2, THEN conjunct2, THEN conjunct2,
          THEN conjunct2, THEN conjunct1, THEN mp])
       (simp add: run less_Suc_eq numeral_3_eq_3)
  have d': "parse_date_string sample_lib ex_long_date = Inr (Some ex_midnight)"
    by (rule main [where caps = "[1 \<mapsto> [0x38], 2 \<mapsto> [c_ya, c_n, c_v, c_a, c_r, c_ya],
              3 \<mapsto> [0x32, 0x30, 0x32, 0x36]]"
            and matched = ex_long_date and tail = "[]" and month_n = 1 and year_n = 2026
            and day_n = 8,
          THEN conjunct2, THEN conjunct2, THEN conjunct2, THEN conjunct2,
          THEN conjunct2, THEN conjunct2, THEN conjunct1, THEN mp])
       (simp add: run)
  from parse_article_total [OF fit]
  obtain r where r: "parse_article sample_lib ex_today ex_now ex_now ex_old_article ex_meta = Inr r"
    by blast
  have "publication_date r \<noteq> None"
    by (rule main [THEN conjunct2, THEN conjunct2, THEN conjunct2, THEN conjunct2,
          THEN conjunct2, THEN conjunct2, THEN conjunct2, THEN mp]) (rule r)
  with r have e: "\<exists>r. parse_article sample_lib ex_today ex_now ex_now ex_old_article ex_meta = Inr r \<and>
        publication_date r \<noteq> None" by blast
  from fit a b c d d' e show ?thesis by (intro conjI)
qed

subsection \<open>Relevance, notification and raw content\<close>

lemma parse_article_details:
  assumes "parse_article L today now stamp response meta = Inr r"
  shows "(relevant r \<longrightarrow>
            (\<exists>name pos. fio r = Some name \<and> position r = Some pos \<and>
               notification_header r = Some (ntf_header (create_notification name pos (resp_url response))) \<and>
               notification_text r = Some (ntf_text (create_notification name pos (resp_url response))) \<and>
               notification_source r = Some (ntf_source (create_notification name pos (resp_url response))))) \<and>
         (\<not> relevant r \<longrightarrow>
            fio r = None \<and> position r = None \<and> notification_header r = None \<and>
            notification_text r = None \<and> notification_source r = None)"
proof -
  from assms obtain pd where pd: "extract_article_date L now response = Inr pd"
    by (cases "extract_article_date L now response") (auto simp: parse_article_def)
  obtain rel ac where rp:
    "relevance_passes L (check_is_today today pd) (meta_title meta) response = (rel, ac)"
    by (cases "relevance_passes L (check_is_today today pd) (meta_title meta) response")
  from assms pd rp show ?thesis
    by (cases rel) (auto simp: parse_article_def Let_def)
qed

lemma relevance_passes_eq:
  "relevance_passes L flag t response =
     (if flag \<and> is_presidential_appointment L t then (True, None)
      else (is_presidential_appointment L (extract_article_content response),
            Some (extract_article_content response)))"
  by (simp add: relevance_passes_def Let_def)

text \<open>
  C1. The record that \<open>parse_article\<close> yields is relevant exactly when the article is dated on
  the day the crawl started and the classifier accepts its title, or the classifier accepts
  the extracted body. When the article is dated on another day the body pass runs whatever
  the title is (the local \<^verbatim>\<open>article_content\<close> is assigned) and decides alone; when the title
  pass succeeds the body pass is skipped (the local is never assigned).
\<close>

theorem parse_article_relevance:
  assumes "parse_article L today now stamp response meta = Inr r"
  shows "\<exists>pub. extract_article_date L now response = Inr (Some pub) \<and>
     (relevant r \<longleftrightarrow>
        (date_of pub = date_of today \<and> is_presidential_appointment L (meta_title meta)) \<or>
        is_presidential_appointment L (extract_article_content response)) \<and>
     (date_of pub \<noteq> date_of today \<longrightarrow>
        relevance_passes L (is_today r) (meta_title meta) response =
          (is_presidential_appointment L (extract_article_content response),
           Some (extract_article_content response))) \<and>
     (date_of pub = date_of today \<and> is_presidential_appointment L (meta_title meta) \<longrightarrow>
        relevance_passes L (is_today r) (meta_title meta) response = (True, None))"
proof -
  from parse_article_fields [OF assms] obtain pub where
    pub: "extract_article_date L now response = Inr (Some pub)"
    and today: "is_today r = (date_of pub = date_of today)"
    and rel: "relevant r = fst (relevance_passes L (is_today r) (meta_title meta) response)"
    by blast
  from today rel have "relevant r \<longleftrightarrow>
        (date_of pub = date_of today \<and> is_presidential_appointment L (meta_title meta)) \<or>
        is_presidential_appointment L (extract_article_content response)"
    by (auto simp: relevance_passes_eq)
  moreover from today have "date_of pub \<noteq> date_of today \<longrightarrow>
        relevance_passes L (is_today r) (meta_title meta) response =
          (is_presidential_appointment L (extract_article_content response),
           Some (extract_article_content response))"
    by (simp add: relevance_passes_eq)
  moreover from today have "date_of pub = date_of today \<and> is_presidential_appointment L (meta_title meta) \<longrightarrow>
        relevance_passes L (is_today r) (meta_title meta) response = (True, None)"
    by (simp add: relevance_passes_eq)
  ultimately show ?thesis using pub by blast
qed

lemma ex_old_article_date:
  "extract_article_date sample_lib ex_now ex_old_article = Inr (Some ex_yesterday)"
  by (simp add: run)

lemma ex_today_article_date:
  "extract_article_date sample_lib ex_now ex_today_article = Inr (Some ex_now)"
  by (simp add: run)

lemma ex_title_relevant: "is_presidential_appointment sample_lib ex_title"
  by (simp add: run)

lemma ex_concert_irrelevant:
  "extract_article_content ex_old_article = ex_concert \<and>
   \<not> is_presidential_appointment sample_lib ex_concert"
  by (simp add: run)

text \<open>
  The title of the examples is accepted by the classifier. For the article of the day
  before, the title pass fails, the body pass runs on the body and rejects it, and the
  record is not relevant. For the article of today the title pass succeeds, the body pass
  is skipped and the record is relevant.
\<close>

theorem parse_article_relevance_witness:
  "is_presidential_appointment sample_lib ex_title \<and>
   date_of ex_yesterday \<noteq> date_of ex_today \<and>
   (\<exists>r. parse_article sample_lib ex_today ex_now ex_now ex_old_article ex_meta = Inr r \<and>
        \<not> relevant r \<and>
        relevance_passes sample_lib (is_today r) ex_title ex_old_article = (False, Some ex_concert)) \<and>
   date_of ex_now = date_of ex_today \<and>
   (\<exists>r. parse_article sample_lib ex_today ex_now ex_now ex_today_article ex_meta = Inr r \<and>
        relevant r \<and>
        relevance_passes sample_lib (is_today r) ex_title ex_today_article = (True, None))"
proof -
  have d1: "date_of ex_yesterday \<noteq> date_of ex_today" by (simp add: run)
  have d2: "date_of ex_now = date_of ex_today" by (simp add: run)
  have t: "meta_title ex_meta = ex_title" by (simp add: ex_meta_def)
  from parse_article_total [OF sample_short_ints_fit]
  obtain r1 where r1: "parse_article sample_lib ex_today ex_now ex_now ex_old_article ex_meta = Inr r1"
    by blast
  from parse_article_relevance [OF r1] ex_old_article_date d1 ex_concert_irrelevant ex_title_relevant t
  have "\<not> relevant r1 \<and>
        relevance_passes sample_lib (is_today r1) ex_title ex_old_article = (False, Some ex_concert)"
    by auto
  with r1 have a: "\<exists>r. parse_article sample_lib ex_today ex_now ex_now ex_old_article ex_meta = Inr r \<and>
        \<not> relevant r \<and>
        relevance_passes sample_lib (is_today r) ex_title ex_old_article = (False, Some ex_concert)"
    by blast
  from parse_article_total [OF sample_short_ints_fit]
  obtain r2 where r2: "parse_article sample_lib ex_today ex_now ex_now ex_today_article ex_meta = Inr r2"
    by blast
  from parse_article_relevance [OF r2] ex_today_article_date d2 ex_title_relevant t
  have "relevant r2 \<and>
        relevance_passes sample_lib (is_today r2) ex_title ex_today_article = (True, None)"
    by auto
  with r2 have b: "\<exists>r. parse_article sample_lib ex_today ex_now ex_now ex_today_article ex_meta = Inr r \<and>
        relevant r \<and>
        relevance_passes sample_lib (is_today r) ex_title ex_today_article = (True, None)"
    by blast
  from ex_title_relevant d1 a d2 b show ?thesis by (intro conjI)
qed

text \<open>
  C8. In the record that \<open>parse_article\<close> yields, the name, the position and the three
  notification fields are \<^verbatim>\<open>None\<close> exactly when the record is not relevant. When it is
  relevant, the three notification fields are those of \<open>create_notification\<close> applied to the
  name, the position and the URL of the article: the header is the constant header text and
  the source is the URL of the article, which is also the \<^verbatim>\<open>url\<close> of the record.
\<close>

theorem parse_article_notification:
  assumes "parse_article L today now stamp response meta = Inr r"
  shows "(notification_header r = None \<longleftrightarrow> \<not> relevant r) \<and>
         (notification_text r = None \<longleftrightarrow> \<not> relevant r) \<and>
         (notification_source r = None \<longleftrightarrow> \<not> relevant r) \<and>
         (fio r = None \<longleftrightarrow> \<not> relevant r) \<and>
         (position r = None \<longleftrightarrow> \<not> relevant r) \<and>
         (relevant r \<longrightarrow>
            notification_header r = Some notification_header_text \<and>
            notification_source r = Some (url r) \<and>
            url r = resp_url response \<and>
            (\<exists>name pos. fio r = Some name \<and> position r = Some pos \<and>
               notification_header r = Some (ntf_header (create_notification name pos (url r))) \<and>
               notification_text r = Some (ntf_text (create_notification name pos (url r))) \<and>
               notification_source r = Some (ntf_source (create_notification name pos (url r)))))"
proof -
  from parse_article_fields [OF assms] have u: "url r = resp_url response" by blast
  note det = parse_article_details [OF assms]
  show ?thesis
  proof (cases "relevant r")
    case True
    with det obtain name pos where np: "fio r = Some name" "position r = Some pos"
      "notification_header r = Some (ntf_header (create_notification name pos (resp_url response)))"
      "notification_text r = Some (ntf_text (create_notification name pos (resp_url response)))"
      "notification_source r = Some (ntf_source (create_notification name pos (resp_url response)))"
      by blast
    from np(3,5) have "notification_header r = Some notification_header_text"
      "notification_source r = Some (resp_url response)"
      by (simp_all add: create_notification_def)
    with True np u show ?thesis by auto
  next
    case False
    with det show ?thesis by simp
  qed
qed

text \<open>
  The record of the article of today is relevant, and its header and source are the
  constant header and the URL of the article; the record of the article of the day before is
  not relevant and has no header.
\<close>

theorem parse_article_notification_witness:
  "(\<exists>r. parse_article sample_lib ex_today ex_now ex_now ex_today_article ex_meta = Inr r \<and>
        relevant r \<and> notification_header r = Some notification_header_text \<and>
        notification_source r = Some (resp_url ex_today_article)) \<and>
   (\<exists>r. parse_article sample_lib ex_today ex_now ex_now ex_old_article ex_meta = Inr r \<and>
        \<not> relevant r \<and> notification_header r = None)"
proof -
  have e1: "parse_article sample_lib ex_today ex_now ex_now ex_today_article ex_meta =
      Inr (projr (parse_article sample_lib ex_today ex_now ex_now ex_today_article ex_meta))"
    using parse_article_total [OF sample_short_ints_fit, of ex_today ex_now ex_now ex_today_article ex_meta]
    by auto
  have rel1: "relevant (projr (parse_article sample_lib ex_today ex_now ex_now ex_today_article ex_meta))"
    by (simp add: run)
  from parse_article_notification [OF e1] rel1 e1
  have a: "\<exists>r. parse_article sample_lib ex_today ex_now ex_now ex_today_article ex_meta = Inr r \<and>
        relevant r \<and> notification_header r = Some notification_header_text \<and>
        notification_source r = Some (resp_url ex_today_article)"
    by metis
  have e2: "parse_article sample_lib ex_today ex_now ex_now ex_old_article ex_meta =
      Inr (projr (parse_article sample_lib ex_today ex_now ex_now ex_old_article ex_meta))"
    using parse_article_total [OF sample_short_ints_fit, of ex_today ex_now ex_now ex_old_article ex_meta]
    by auto
  have rel2: "\<not> relevant (projr (parse_article sample_lib ex_today ex_now ex_now ex_old_article ex_meta))"
    by (simp add: run)
  from parse_article_notification [OF e2] rel2 e2
  have b: "\<exists>r. parse_article sample_lib ex_today ex_now ex_now ex_old_article ex_meta = Inr r \<and>
        \<not> relevant r \<and> notification_header r = None"
    by metis
  from a b show ?thesis by (intro conjI)
qed

text \<open>
  C9, as stated, fails for an article on which the title pass succeeds: the body of the
  article of today is extracted as the text \<open>ex_body\<close>, which is not empty, and the record
  carries the empty text as \<^verbatim>\<open>raw_content\<close>.
\<close>

theorem raw_content_counterexample:
  "\<not> isl (parse_article sample_lib ex_today ex_now ex_now ex_today_article ex_meta) \<and>
   raw_content (projr (parse_article sample_lib ex_today ex_now ex_now ex_today_article ex_meta)) = [] \<and>
   take 1000 (extract_article_content ex_today_article) = ex_body \<and>
   ex_body \<noteq> []"
  by (simp add: run)

text \<open>
  C9, amended. The \<^verbatim>\<open>raw_content\<close> of the record that \<open>parse_article\<close> yields is the first 1000
  characters of the extracted body when the body pass ran, that is unless the article is
  dated on the day the crawl started and the classifier accepts its title; in that case
  the body is not extracted and \<^verbatim>\<open>raw_content\<close> is the empty text.
\<close>

theorem parse_article_raw_content:
  assumes "parse_article L today now stamp response meta = Inr r"
  shows "\<exists>pub. extract_article_date L now response = Inr (Some pub) \<and>
     (if date_of pub = date_of today \<and> is_presidential_appointment L (meta_title meta)
      then raw_content r = []
      else raw_content r = take 1000 (extract_article_content response))"
proof -
  from parse_article_fields [OF assms] obtain pub where
    pub: "extract_article_date L now response = Inr (Some pub)"
    and today: "is_today r = (date_of pub = date_of today)"
    and raw: "raw_content r =
       (case snd (relevance_passes L (is_today r) (meta_title meta) response) of
          Some c \<Rightarrow> if c \<noteq> [] then take 1000 c else []
        | None \<Rightarrow> [])"
    by blast
  from today raw have
    "if date_of pub = date_of today \<and> is_presidential_appointment L (meta_title meta)
      then raw_content r = []
      else raw_content r = take 1000 (extract_article_content response)"
    by (auto simp: relevance_passes_eq)
  with pub show ?thesis by blast
qed

text \<open>
  The record of the article of the day before carries its body, which is shorter than 1000
  characters; the record of the article of today carries the empty text.
\<close>

theorem parse_article_raw_content_witness:
  "(\<exists>r. parse_article sample_lib ex_today ex_now ex_now ex_old_article ex_meta = Inr r \<and>
        raw_content r = ex_concert) \<and>
   (\<exists>r. parse_article sample_lib ex_today ex_now ex_now ex_today_article ex_meta = Inr r \<and>
        raw_content r = [])"
proof -
  have d1: "date_of ex_yesterday \<noteq> date_of ex_today" by (simp add: run)
  have d2: "date_of ex_now = date_of ex_today" by (simp add: run)
  have t: "meta_title ex_meta = ex_title" by (simp add: ex_meta_def)
  have c: "take 1000 ex_concert = ex_concert" by (simp add: ex_concert_def)
  from parse_article_total [OF sample_short_ints_fit]
  obtain r1 where r1: "parse_article sample_lib ex_today ex_now ex_now ex_old_article ex_meta = Inr r1"
    by blast
  from parse_article_raw_content [OF r1] ex_old_article_date d1 ex_concert_irrelevant c
  have "raw_content r1 = ex_concert" by auto
  with r1 have a: "\<exists>r. parse_article sample_lib ex_today ex_now ex_now ex_old_article ex_meta = Inr r \<and>
        raw_content r = ex_concert" by blast
  from parse_article_total [OF sample_short_ints_fit]
  obtain r2 where r2: "parse_article sample_lib ex_today ex_now ex_now ex_today_article ex_meta = Inr r2"
    by blast
  from parse_article_raw_content [OF r2] ex_today_article_date d2 ex_title_relevant t
  have "raw_content r2 = []" by auto
  with r2 have b: "\<exists>r. parse_article sample_lib ex_today ex_now ex_now ex_today_article ex_meta = Inr r \<and>
        raw_content r = []" by blast
  from a b show ?thesis by (intro conjI)
qed

subsection \<open>The listing callback and the crawl\<close>

lemma is_listing_simps [simp]:
  "is_listing (Listing_Request u lm) = True"
  "is_listing (Article_Request u am) = False"
  by (simp_all add: is_listing_def)

lemma item_requests_classified:
  assumes "item_requests L item item_date = Inr reqs" and "q \<in> set reqs"
  shows "classified L q"
  using assms
  by (auto simp: item_requests_def classified_def Let_def
           split: option.splits if_splits list.splits)

lemma items_loop_classified:
  "q \<in> set (fst (items_loop ext L today items)) \<Longrightarrow> classified L q"
proof (induction items)
  case Nil
  then show ?case by simp
next
  case (Cons item rest)
  show ?case
  proof (cases "ext item")
    case (Inl e)
    with Cons.prems show ?thesis by simp
  next
    case (Inr item_date)
    show ?thesis
    proof (cases "case item_date of None \<Rightarrow> False | Some d \<Rightarrow> date_before (date_of d) (date_of today)")
      case True
      with Inr Cons.prems show ?thesis by simp
    next
      case False
      show ?thesis
      proof (cases "item_requests L item item_date")
        case (Inl e)
        with Inr False Cons.prems show ?thesis by simp
      next
        case reqs: (Inr reqs)
        with Inr False Cons.prems
        have "q \<in> set reqs \<or> q \<in> set (fst (items_loop ext L today rest))"
          by (auto split: prod.splits)
        then show ?thesis
          using item_requests_classified [OF reqs] Cons.IH by blast
      qed
    qed
  qed
qed

lemma classified_not_listing: "classified L q \<Longrightarrow> \<not> is_listing q"
  by (cases q) (simp_all add: classified_def is_listing_def)

lemma load_more_loop_shape:
  "load_more_loop L p divs = Inr reqs \<Longrightarrow> reqs = [] \<or> (\<exists>u m. reqs = [Listing_Request u m])"
  by (induction divs) (auto simp: Let_def split: if_splits option.splits prod.splits)

lemma parse_news_list_classified:
  assumes "q \<in> set (fst (parse_news_list_with ext L today m response))"
  shows "is_listing q \<or> classified L q"
proof -
  obtain reqs ex where il: "items_loop ext L today (lenta_items response) = (reqs, ex)"
    by (cases "items_loop ext L today (lenta_items response)")
  have cl: "\<forall>q \<in> set reqs. classified L q"
    using items_loop_classified [of _ ext L today "lenta_items response"] il by auto
  show ?thesis
  proof (cases "load_more_loop L (page m) (load_more_onclick response)")
    case (Inl e)
    with il cl assms show ?thesis
      by (cases ex) (auto simp: parse_news_list_with_def Let_def split: if_splits)
  next
    case (Inr nxt)
    from load_more_loop_shape [OF this] have "\<forall>q \<in> set nxt. is_listing q"
      by (auto simp: is_listing_def)
    with il cl Inr assms show ?thesis
      by (cases ex) (auto simp: parse_news_list_with_def Let_def split: if_splits)
  qed
qed

text \<open>
  The invariant of the crawl: every pending article request was classified by the listing
  callback, and every emitted record has the title and the snippet of such a request.
\<close>

lemma crawl_step_classified:
  assumes "crawl_step ext L today s t"
    and "\<forall>q \<in> set (pending s). is_listing q \<or> classified L q"
    and "\<forall>r \<in> set (emitted s).
           is_presidential_appointment L (py_lower L (title r @ [sp] @ snippet r))"
  shows "(\<forall>q \<in> set (pending t). is_listing q \<or> classified L q) \<and>
         (\<forall>r \<in> set (emitted t).
           is_presidential_appointment L (py_lower L (title r @ [sp] @ snippet r)))"
  using assms(1)
proof (cases rule: crawl_step.cases)
  case (listing before u m after response)
  with assms(2,3) parse_news_list_classified [of _ ext L today m response]
  show ?thesis by auto
next
  case (article before u m after now stamp response r)
  with assms(2) have "classified L (Article_Request u m)" by auto
  then have "is_presidential_appointment L (py_lower L (meta_title m @ [sp] @ meta_snippet m))"
    by (simp add: classified_def)
  moreover from parse_article_fields [OF article(3)]
  have "title r = meta_title m" "snippet r = meta_snippet m" by blast+
  ultimately have "is_presidential_appointment L (py_lower L (title r @ [sp] @ snippet r))"
    by simp
  with article assms(2,3) show ?thesis by auto
next
  case (article_failed before u m after now stamp response e)
  with assms(2,3) show ?thesis by auto
next
  case (dropped before q after)
  with assms(2,3) show ?thesis by auto
qed

lemma crawl_reachable_classified:
  "crawl_reachable ext L today s \<Longrightarrow>
     (\<forall>q \<in> set (pending s). is_listing q \<or> classified L q) \<and>
     (\<forall>r \<in> set (emitted s).
        is_presidential_appointment L (py_lower L (title r @ [sp] @ snippet r)))"
proof (induction rule: crawl_reachable.induct)
  case start
  show ?case by (simp add: crawl_start_def start_requests_def)
next
  case (step s t)
  from crawl_step_classified [OF step.hyps(2)] step.IH show ?case by blast
qed

text \<open>
  C10. Every article request that the listing callback yields carries a title and a
  snippet whose lowered concatenation the classifier accepts. So, in every state of the
  crawl, this holds of every pending article request and of the title and the snippet of
  every emitted record, whatever \<open>parse_article\<close> decided on the record. (It holds for
  every function \<open>ext\<close> that dates an item, so for \<open>extract_item_date\<close>.)
\<close>

theorem emitted_records_classified:
  "(\<forall>u am. Article_Request u am \<in> set (fst (parse_news_list_with ext L today m response)) \<longrightarrow>
      is_presidential_appointment L (py_lower L (meta_title am @ [sp] @ meta_snippet am))) \<and>
   (crawl_reachable ext L today s \<longrightarrow>
      (\<forall>u am. Article_Request u am \<in> set (pending s) \<longrightarrow>
         is_presidential_appointment L (py_lower L (meta_title am @ [sp] @ meta_snippet am))) \<and>
      (\<forall>r \<in> set (emitted s).
         is_presidential_appointment L (py_lower L (title r @ [sp] @ snippet r))))"
proof (intro conjI impI allI)
  fix u am
  assume "Article_Request u am \<in> set (fst (parse_news_list_with ext L today m response))"
  from parse_news_list_classified [OF this]
  show "is_presidential_appointment L (py_lower L (meta_title am @ [sp] @ meta_snippet am))"
    by (simp add: classified_def)
next
  fix u am
  assume "crawl_reachable ext L today s" and "Article_Request u am \<in> set (pending s)"
  with crawl_reachable_classified [of ext L today s]
  have "is_listing (Article_Request u am) \<or> classified L (Article_Request u am)" by blast
  then show "is_presidential_appointment L (py_lower L (meta_title am @ [sp] @ meta_snippet am))"
    by (simp add: classified_def)
next
  assume "crawl_reachable ext L today s"
  with crawl_reachable_classified [of ext L today s]
  show "\<forall>r \<in> set (emitted s).
         is_presidential_appointment L (py_lower L (title r @ [sp] @ snippet r))"
    by blast
qed

text \<open>
  On the example listing the callback of the spider yields the requests of the first and
  of the third item and the request for the next page (its date function dates no item, so
  the loop does not stop at the second item).
\<close>

lemma ex_listing_all:
  "parse_news_list sample_lib ex_today \<lparr>page = 1, continue_loading = True\<rparr> ex_listing =
     ([ex_request ''/president/view/2'', ex_request ''/president/view/0'', ex_next_page], None)"
  by (simp add: parse_news_list_def extract_item_date_None run replace.simps)

text \<open>
  A crawl of two steps: the example listing is handled, then the article of the day before
  is downloaded for the first request. The record emitted is not relevant, and the
  classifier accepts its title and snippet.
\<close>

theorem emitted_records_classified_witness:
  "\<exists>s. crawl_reachable (extract_item_date sample_lib) sample_lib ex_today s \<and>
       length (emitted s) = 1 \<and>
       list_all (\<lambda>r. \<not> relevant r \<and>
                     is_presidential_appointment sample_lib
                       (py_lower sample_lib (title r @ [sp] @ snippet r)))
                (emitted s)"
proof -
  let ?ext = "extract_item_date sample_lib"
  let ?m = "\<lparr>page = 1, continue_loading = True\<rparr>"
  let ?am = "\<lparr>meta_title = ex_title, meta_snippet = ex_snippet, meta_item_date = None\<rparr>"
  let ?u = "asc ''https://belta.by'' @ asc ''/president/view/2''"
  let ?rest = "[ex_request ''/president/view/0'', ex_next_page]"
  let ?s1 = "crawl_start\<lparr>pending := [] @ [] @ fst (parse_news_list_with ?ext sample_lib ex_today ?m ex_listing)\<rparr>"
  have "pending crawl_start = [] @ Listing_Request (asc ''https://belta.by/all_news/'') ?m # []"
    by (simp add: crawl_start_def start_requests_def)
  then have "crawl_step ?ext sample_lib ex_today crawl_start ?s1"
    by (rule crawl_step.listing)
  with crawl_reachable.start have r1: "crawl_reachable ?ext sample_lib ex_today ?s1"
    by (rule crawl_reachable.step)
  have p1: "pending ?s1 = [] @ Article_Request ?u ?am # ?rest"
    using ex_listing_all by (simp add: parse_news_list_def ex_request_def)
  have e1: "emitted ?s1 = []" by (simp add: crawl_start_def)
  from parse_article_total [OF sample_short_ints_fit]
  obtain r where r: "parse_article sample_lib ex_today ex_now ex_now ex_old_article ?am = Inr r"
    by blast
  let ?s2 = "?s1\<lparr>pending := [] @ ?rest, emitted := emitted ?s1 @ [r]\<rparr>"
  from p1 r have "crawl_step ?ext sample_lib ex_today ?s1 ?s2"
    by (rule crawl_step.article)
  with r1 have r2: "crawl_reachable ?ext sample_lib ex_today ?s2"
    by (rule crawl_reachable.step)
  have em: "emitted ?s2 = [r]" using e1 by simp
  from emitted_records_classified [of ?ext sample_lib ex_today ?m ex_listing ?s2] r2 em
  have cl: "is_presidential_appointment sample_lib (py_lower sample_lib (title r @ [sp] @ snippet r))"
    by simp
  from parse_article_fields [OF r] ex_old_article_date
  have "is_today r = (date_of ex_yesterday = date_of ex_today)"
    and "relevant r = fst (relevance_passes sample_lib (is_today r) ex_title ex_old_article)"
    by auto
  moreover have "date_of ex_yesterday \<noteq> date_of ex_today" by (simp add: run)
  ultimately have nr: "\<not> relevant r"
    using ex_concert_irrelevant by (simp add: relevance_passes_eq)
  from r2 em cl nr show ?thesis
    by (intro exI [of _ ?s2]) simp
qed

text \<open>
  With the date function of the spider the loop over the items never stops at an item: it
  ends exhausted or with an exception.
\<close>

lemma items_loop_undated:
  assumes "\<And>item. ext item = Inr None"
  shows "snd (items_loop ext L today items) \<noteq> Found_previous_day"
proof (induction items)
  case Nil
  show ?case by simp
next
  case (Cons item rest)
  obtain later ex where le: "items_loop ext L today rest = (later, ex)"
    by (cases "items_loop ext L today rest")
  with Cons have "ex \<noteq> Found_previous_day" by simp
  have here: "ext item = Inr None" by (rule assms)
  show ?case
  proof (cases "item_requests L item None")
    case (Inl e)
    with here show ?thesis by simp
  next
    case (Inr reqs)
    with here le \<open>ex \<noteq> Found_previous_day\<close> show ?thesis by simp
  qed
qed

lemma items_loop_never_previous_day:
  "snd (items_loop (extract_item_date L) L today items) \<noteq> Found_previous_day"
  by (rule items_loop_undated) (rule extract_item_date_None)

text \<open>
  C3. The function of the spider that dates an item dates none, so the loop over the items
  of a page never ends at an item of an earlier day, whatever the page. On the example
  listing, crawled on 9 January 2026, the second item has the day text 08 and the
  month-year text 01.26, which is 8 January 2026, a day before the crawl. The item gets no
  date: the callback still yields the request of the third item, which comes after it, and
  the request for page 2, a listing page, and after this step of the crawl both are pending.
\<close>

theorem boundary_never_reached:
  "snd (items_loop (extract_item_date L) L today items) \<noteq> Found_previous_day \<and>
   day_text (lenta_items ex_listing ! 1) = Some (asc ''08'') \<and>
   month_year_text (lenta_items ex_listing ! 1) = Some (asc ''01.26'') \<and>
   date_before (date_of ex_midnight) (date_of ex_today) \<and>
   extract_item_date sample_lib (lenta_items ex_listing ! 1) = Inr None \<and>
   parse_news_list sample_lib ex_today \<lparr>page = 1, continue_loading = True\<rparr> ex_listing =
     ([ex_request ''/president/view/2'', ex_request ''/president/view/0'', ex_next_page], None) \<and>
   is_listing ex_next_page \<and>
   crawl_reachable (extract_item_date sample_lib) sample_lib ex_today
     (crawl_start\<lparr>pending :=
        [ex_request ''/president/view/2'', ex_request ''/president/view/0'', ex_next_page]\<rparr>)"
proof -
  let ?ext = "extract_item_date sample_lib"
  let ?m = "\<lparr>page = 1, continue_loading = True\<rparr>"
  let ?reqs = "[ex_request ''/president/view/2'', ex_request ''/president/view/0'', ex_next_page]"
  have a: "snd (items_loop (extract_item_date L) L today items) \<noteq> Found_previous_day"
    by (rule items_loop_never_previous_day)
  have b: "day_text (lenta_items ex_listing ! 1) = Some (asc ''08'')"
    by (simp add: ex_listing_def ex_item_def)
  have c: "month_year_text (lenta_items ex_listing ! 1) = Some (asc ''01.26'')"
    by (simp add: ex_listing_def ex_item_def)
  have d: "date_before (date_of ex_midnight) (date_of ex_today)" by (simp add: run)
  have e: "extract_item_date sample_lib (lenta_items ex_listing ! 1) = Inr None"
    by (rule extract_item_date_None)
  note f = ex_listing_all
  have g: "is_listing ex_next_page" by (simp add: ex_next_page_def)
  have "pending crawl_start = [] @ Listing_Request (asc ''https://belta.by/all_news/'') ?m # []"
    by (simp add: crawl_start_def start_requests_def)
  then have "crawl_step ?ext sample_lib ex_today crawl_start
      (crawl_start\<lparr>pending := [] @ [] @ fst (parse_news_list_with ?ext sample_lib ex_today ?m ex_listing)\<rparr>)"
    by (rule crawl_step.listing)
  with crawl_reachable.start
  have "crawl_reachable ?ext sample_lib ex_today
      (crawl_start\<lparr>pending := [] @ [] @ fst (parse_news_list_with ?ext sample_lib ex_today ?m ex_listing)\<rparr>)"
    by (rule crawl_reachable.step)
  moreover have "fst (parse_news_list_with ?ext sample_lib ex_today ?m ex_listing) = ?reqs"
    using f by (simp add: parse_news_list_def)
  ultimately have h: "crawl_reachable ?ext sample_lib ex_today (crawl_start\<lparr>pending := ?reqs\<rparr>)"
    by simp
  from a b c d e f g h show ?thesis by (intro conjI)
qed

subsection \<open>The name\<close>

lemma rmatch_Grp:
  assumes "(cs', s') \<in> set (rmatch ceq (Grp k r) cs s)"
  shows "\<exists>w. cs' k = Some w \<and> s = w @ s' \<and> w \<in> lang ceq r"
proof -
  from assms obtain cs1 where m1: "(cs1, s') \<in> set (rmatch ceq r cs s)"
    and cs': "cs' = cs1(k \<mapsto> take (length s - length s') s)"
    by auto
  from rmatch_sound [OF m1] obtain w where w: "s = w @ s'" "w \<in> lang ceq r" by blast
  then have "take (length s - length s') s = w" by simp
  with cs' w show ?thesis by simp
qed

lemma findall_search:
  "x \<in> set (findall ceq r s) \<Longrightarrow> \<exists>s' rest. search ceq r s' = Some (fst x, snd x, rest)"
proof (induction ceq r s rule: findall.induct)
  case (1 ceq r s)
  show ?case
  proof (cases "search ceq r s")
    case None
    with "1.prems" show ?thesis by (simp add: findall.simps)
  next
    case (Some y)
    obtain cs m rest where y: "y = (cs, m, rest)" by (cases y) auto
    from "1.prems" Some y
    have "x = (cs, m) \<or>
      (length rest < length s \<and> x \<in> set (findall ceq r rest)) \<or>
      (\<not> length rest < length s \<and> (\<exists>c t. rest = c # t \<and> x \<in> set (findall ceq r t)))"
      by (subst (asm) findall.simps) (auto split: if_splits list.splits)
    then show ?thesis
    proof (elim disjE conjE exE)
      assume "x = (cs, m)"
      with Some y show ?thesis by auto
    next
      assume "length rest < length s" "x \<in> set (findall ceq r rest)"
      with "1.IH"(1) [OF Some y [symmetric] refl] show ?thesis by blast
    next
      fix c t
      assume "\<not> length rest < length s" "rest = c # t" "x \<in> set (findall ceq r t)"
      with "1.IH"(2) [OF Some y [symmetric] refl] show ?thesis by blast
    qed
  qed
qed

lemma findall_group_lang:
  assumes "c \<in> set (findall_group ceq (Grp 1 r) s)"
  shows "c \<in> lang ceq r"
proof -
  from assms obtain x where x: "x \<in> set (findall ceq (Grp 1 r) s)" and c: "c = group (fst x) 1"
    by (auto simp: findall_group_def)
  from findall_search [OF x] obtain s' rest where
    "search ceq (Grp 1 r) s' = Some (fst x, snd x, rest)" by blast
  from search_rmatch [OF this] obtain s'' where
    "(fst x, rest) \<in> set (rmatch ceq (Grp 1 r) Map.empty s'')" by blast
  from rmatch_Grp [OF this] c show ?thesis by (auto simp: group_def)
qed

lemma concat_singletons:
  assumes "set ws \<subseteq> {[c] | c. P c}"
  shows "list_all P (concat ws) \<and> length (concat ws) = length ws"
  using assms by (induction ws) auto

lemma lang_Plus_Cls:
  assumes "w \<in> lang ceq (Plus (Cls P))"
  shows "w \<noteq> [] \<and> list_all P w"
proof -
  from assms obtain ws where w: "w = concat ws" and n: "1 \<le> length ws"
    and sub: "set ws \<subseteq> lang ceq (Cls P)"
    unfolding lang.simps(7) by auto
  from sub have "set ws \<subseteq> {[c] | c. P c}" by simp
  from concat_singletons [OF this] w n
  have "list_all P w" and "length w = length ws" by simp_all
  with n show ?thesis by auto
qed

lemma lang_cap_word: "w \<in> lang (=) cap_word \<Longrightarrow> is_cap_word w"
proof -
  assume "w \<in> lang (=) cap_word"
  then obtain c v where w: "w = [c] @ v" and c: "is_cyr_upper c"
    and v: "v \<in> lang (=) (Plus (Cls is_cyr_lower))"
    by (auto simp: cap_word_def)
  from lang_Plus_Cls [OF v] w c show ?thesis by (simp add: is_cap_word_def)
qed

lemma lang_Rep_1_2:
  assumes "w \<in> lang ceq (Rep g r 1 (Some 2))"
  shows "\<exists>u \<in> lang ceq r. w = u \<or> (\<exists>v \<in> lang ceq r. w = u @ v)"
proof -
  from assms obtain ws where w: "w = concat ws" and lo: "1 \<le> length ws" and hi: "length ws \<le> 2"
    and sub: "set ws \<subseteq> lang ceq r"
    unfolding lang.simps(7) by auto
  from lo hi have "length ws = 1 \<or> length ws = 2" by arith
  then show ?thesis
  proof
    assume "length ws = 1"
    then obtain u where "ws = [u]" by (cases ws) auto
    with w sub show ?thesis by auto
  next
    assume "length ws = 2"
    then obtain u v where "ws = [u, v]"
      by (cases ws; cases "tl ws") auto
    with w sub show ?thesis by auto
  qed
qed

text \<open>The texts that \<^verbatim>\<open>FIO_PATTERN\<close> can match.\<close>

lemma fio_lang:
  assumes "c \<in> lang (=) (Seq cap_word (Rep True (Seq (Plus (Cls is_space)) cap_word) 1 (Some 2)))"
  shows "\<exists>w1 s1 w2. is_cap_word w1 \<and> s1 \<noteq> [] \<and> list_all is_space s1 \<and> is_cap_word w2 \<and>
           (c = w1 @ s1 @ w2 \<or>
            (\<exists>s2 w3. s2 \<noteq> [] \<and> list_all is_space s2 \<and> is_cap_word w3 \<and>
                      c = w1 @ s1 @ w2 @ s2 @ w3))"
proof -
  let ?step = "Seq (Plus (Cls is_space)) cap_word"
  from assms obtain w1 t where c: "c = w1 @ t" and w1: "w1 \<in> lang (=) cap_word"
    and t: "t \<in> lang (=) (Rep True ?step 1 (Some 2))"
    by auto
  have step: "\<exists>s w. x = s @ w \<and> s \<noteq> [] \<and> list_all is_space s \<and> is_cap_word w"
    if "x \<in> lang (=) ?step" for x
  proof -
    from that obtain s w where "x = s @ w" "s \<in> lang (=) (Plus (Cls is_space))" "w \<in> lang (=) cap_word"
      by auto
    with lang_Plus_Cls [of s "(=)" is_space] lang_cap_word [of w] show ?thesis by blast
  qed
  from lang_Rep_1_2 [OF t] obtain u where u: "u \<in> lang (=) ?step"
    and alt: "t = u \<or> (\<exists>v \<in> lang (=) ?step. t = u @ v)" by blast
  from step [OF u] obtain s1 w2 where u': "u = s1 @ w2" "s1 \<noteq> []" "list_all is_space s1" "is_cap_word w2"
    by blast
  from alt show ?thesis
  proof
    assume "t = u"
    with c u' lang_cap_word [OF w1] show ?thesis by auto
  next
    assume "\<exists>v \<in> lang (=) ?step. t = u @ v"
    then obtain v where v: "v \<in> lang (=) ?step" and tv: "t = u @ v" by blast
    from step [OF v] obtain s2 w3 where v': "v = s2 @ w3" "s2 \<noteq> []" "list_all is_space s2" "is_cap_word w3"
      by blast
    from c tv u' v' have "c = w1 @ s1 @ w2 @ s2 @ w3" by simp
    with u' v' lang_cap_word [OF w1] show ?thesis by blast
  qed
qed

subsection \<open>Splitting at white space\<close>

lemma cyr_not_space: "is_cyr_upper c \<or> is_cyr_lower c \<Longrightarrow> \<not> is_space c"
  by (auto simp: is_cyr_upper_def is_cyr_lower_def is_space_def)

lemma cap_word_no_space:
  assumes "is_cap_word w"
  shows "w \<noteq> [] \<and> list_all (\<lambda>x. \<not> is_space x) w"
proof -
  from assms obtain c ls where w: "w = c # ls" and c: "is_cyr_upper c" and ls: "list_all is_cyr_lower ls"
    by (cases w) (auto simp: is_cap_word_def)
  from ls have "list_all (\<lambda>x. \<not> is_space x) ls"
    by (induction ls) (auto simp: cyr_not_space)
  with w c show ?thesis by (simp add: cyr_not_space)
qed

lemma words_ws_leading_space:
  "list_all is_space s \<Longrightarrow> words_ws (s @ t) = words_ws t"
proof -
  assume "list_all is_space s"
  then have "dropWhile is_space (s @ t) = dropWhile is_space t"
    by (induction s) auto
  then show ?thesis by (simp add: words_ws.simps [of "s @ t"] words_ws.simps [of t])
qed

lemma words_ws_Nil: "words_ws [] = []"
  by (simp add: words_ws.simps)

lemma words_ws_word:
  assumes "w \<noteq> []" and "list_all (\<lambda>x. \<not> is_space x) w"
    and "t = [] \<or> is_space (hd t)"
  shows "words_ws (w @ t) = w # words_ws t"
proof -
  from assms(1) obtain c w' where w: "w = c # w'" by (cases w) auto
  with assms(2) have c: "\<not> is_space c" and w': "list_all (\<lambda>x. \<not> is_space x) w'" by simp_all
  from w' have all: "\<forall>x \<in> set w'. \<not> is_space x" by (simp add: list_all_iff)
  have tk: "takeWhile (\<lambda>x. \<not> is_space x) (w' @ t) = w'"
    using all assms(3) by (cases t) (auto simp: takeWhile_append2 [of w'] takeWhile_eq_all_conv)
  have dr: "dropWhile (\<lambda>x. \<not> is_space x) (w' @ t) = t"
    using all assms(3) by (cases t) (auto simp: dropWhile_append2 [of w'])
  have "words_ws (w @ t) = (c # takeWhile (\<lambda>x. \<not> is_space x) (w' @ t)) #
          words_ws (dropWhile (\<lambda>x. \<not> is_space x) (w' @ t))"
    using c w by (simp add: words_ws.simps [of "c # w' @ t"])
  with tk dr w show ?thesis by simp
qed

lemma strip_no_space_ends:
  assumes "c \<noteq> []" and "\<not> is_space (hd c)" and "\<not> is_space (last c)"
  shows "strip c = c"
proof -
  from assms(1,2) have l: "lstrip c = c" by (cases c) (simp_all add: lstrip_def)
  from assms(1,3) have "dropWhile is_space (rev c) = rev c"
    by (cases "rev c") (simp_all add: last_rev [symmetric] hd_rev)
  then have "rstrip c = c" by (simp add: rstrip_def)
  with l show ?thesis by (simp add: strip_def)
qed

lemma cap_word_ends:
  assumes "is_cap_word w"
  shows "\<not> is_space (hd w)" and "\<not> is_space (last w)"
proof -
  from cap_word_no_space [OF assms] have ne: "w \<noteq> []" and all: "\<forall>x \<in> set w. \<not> is_space x"
    by (simp_all add: list_all_iff)
  from ne all show "\<not> is_space (hd w)" by simp
  from ne all show "\<not> is_space (last w)" by simp
qed

lemma words_ws_sep_word:
  assumes "s \<noteq> []" and "list_all is_space s" and "is_cap_word w"
    and "t = [] \<or> is_space (hd t)"
  shows "words_ws (s @ w @ t) = w # words_ws t"
  using assms cap_word_no_space [OF assms(3)]
  by (simp add: words_ws_leading_space words_ws_word)

lemma space_run_hd: "s \<noteq> [] \<Longrightarrow> list_all is_space s \<Longrightarrow> is_space (hd (s @ t))"
  by (cases s) simp_all

lemma fio_lang_shape:
  assumes "c \<in> lang (=) (Seq cap_word (Rep True (Seq (Plus (Cls is_space)) cap_word) 1 (Some 2)))"
  shows "fio_shape c"
proof -
  from fio_lang [OF assms] obtain w1 s1 w2 where
    w1: "is_cap_word w1" and s1: "s1 \<noteq> []" "list_all is_space s1" and w2: "is_cap_word w2"
    and alt: "c = w1 @ s1 @ w2 \<or>
            (\<exists>s2 w3. s2 \<noteq> [] \<and> list_all is_space s2 \<and> is_cap_word w3 \<and>
                      c = w1 @ s1 @ w2 @ s2 @ w3)"
    by blast
  note n1 = cap_word_no_space [OF w1]
  from n1 have hd1: "hd (w1 @ t) = hd w1" for t by simp
  from alt show ?thesis
  proof
    assume c: "c = w1 @ s1 @ w2"
    have "words_ws c = w1 # words_ws (s1 @ w2 @ [])"
      unfolding c using n1 space_run_hd [OF s1] by (simp add: words_ws_word)
    also have "\<dots> = [w1, w2]"
      using words_ws_sep_word [OF s1 w2, of "[]"] by (simp add: words_ws_Nil)
    finally have ws: "words_ws c = [w1, w2]" .
    have "c \<noteq> []" using c n1 by simp
    moreover have "\<not> is_space (hd c)" using c hd1 cap_word_ends(1) [OF w1] by simp
    moreover have "\<not> is_space (last c)"
      using c cap_word_ends(2) [OF w2] cap_word_no_space [OF w2] by simp
    ultimately have "strip c = c" by (rule strip_no_space_ends)
    with ws w1 w2 show ?thesis by (simp add: fio_shape_def)
  next
    assume "\<exists>s2 w3. s2 \<noteq> [] \<and> list_all is_space s2 \<and> is_cap_word w3 \<and>
                      c = w1 @ s1 @ w2 @ s2 @ w3"
    then obtain s2 w3 where s2: "s2 \<noteq> []" "list_all is_space s2" and w3: "is_cap_word w3"
      and c: "c = w1 @ s1 @ w2 @ s2 @ w3" by blast
    have "words_ws c = w1 # words_ws (s1 @ w2 @ (s2 @ w3 @ []))"
      unfolding c using n1 space_run_hd [OF s1] by (simp add: words_ws_word)
    also have "\<dots> = w1 # w2 # words_ws (s2 @ w3 @ [])"
      using words_ws_sep_word [OF s1 w2, of "s2 @ w3 @ []"] space_run_hd [OF s2] by simp
    also have "\<dots> = [w1, w2, w3]"
      using words_ws_sep_word [OF s2 w3, of "[]"] by (simp add: words_ws_Nil)
    finally have ws: "words_ws c = [w1, w2, w3]" .
    have "c \<noteq> []" using c n1 by simp
    moreover have "\<not> is_space (hd c)" using c hd1 cap_word_ends(1) [OF w1] by simp
    moreover have "\<not> is_space (last c)"
      using c cap_word_ends(2) [OF w3] cap_word_no_space [OF w3] by simp
    ultimately have "strip c = c" by (rule strip_no_space_ends)
    with ws w1 w2 w3 show ?thesis by (simp add: fio_shape_def)
  qed
qed

lemma fio_candidates_shape:
  "c \<in> set (findall_group (=) FIO_PATTERN full_text) \<Longrightarrow> fio_shape c"
  unfolding FIO_PATTERN_def by (rule fio_lang_shape) (rule findall_group_lang)

lemma fio_loop_shapes:
  assumes "\<forall>c \<in> set cs. fio_shape c"
  shows "fio_loop cs = (case filter (\<lambda>c. \<not> has_excluded c) cs of [] \<Rightarrow> None | c # _ \<Rightarrow> Some c)"
  using assms
proof (induction cs)
  case Nil
  show ?case by simp
next
  case (Cons m ms)
  then have "fio_shape m" by simp
  then have len: "2 \<le> length (words_ws m) \<and> length (words_ws m) \<le> 3" and st: "strip m = m"
    by (auto simp: fio_shape_def)
  from Cons len st show ?case
    by (simp add: Let_def has_excluded_def)
qed

lemma ex_council_candidates: "findall_group (=) FIO_PATTERN ex_council = [ex_council]"
  by (simp add: findall_group_def findall.simps run)

lemma ex_decision_candidates:
  "findall_group (=) FIO_PATTERN ex_decision = [ex_head_of_state, ex_name]"
  by (simp add: findall_group_def findall.simps run)

text \<open>
  C6. The candidates of \<open>extract_fio\<close> are the successive matches of \<^verbatim>\<open>FIO_PATTERN\<close> in the
  text; every one of them has the shape of a name (two or three capitalized Cyrillic words
  separated by white space). \<open>extract_fio\<close> returns the first candidate, in the order of
  the matches, that contains no word of \<^verbatim>\<open>excluded_words\<close>, and the sentinel when every
  candidate contains one. On the text ``Sovet Ministrov Strany'' the only candidate has
  the word Sovet and the result is the sentinel.
\<close>

theorem extract_fio_first_surviving:
  "(\<forall>c \<in> set (findall_group (=) FIO_PATTERN full_text). fio_shape c) \<and>
   extract_fio full_text title_text =
     (case filter (\<lambda>c. \<not> has_excluded c) (findall_group (=) FIO_PATTERN full_text) of
        [] \<Rightarrow> fio_sentinel
      | c # _ \<Rightarrow> c) \<and>
   findall_group (=) FIO_PATTERN ex_council = [ex_council] \<and>
   has_excluded ex_council \<and>
   extract_fio ex_council title_text = fio_sentinel"
proof -
  have shapes: "\<forall>c \<in> set (findall_group (=) FIO_PATTERN t). fio_shape c" for t
    by (blast intro: fio_candidates_shape)
  have eq: "extract_fio t title_text =
     (case filter (\<lambda>c. \<not> has_excluded c) (findall_group (=) FIO_PATTERN t) of
        [] \<Rightarrow> fio_sentinel
      | c # _ \<Rightarrow> c)" for t
    unfolding extract_fio_def fio_loop_shapes [OF shapes]
    by (simp split: list.splits)
  have ex: "has_excluded ex_council" by (simp add: run)
  with eq [of ex_council] ex_council_candidates
  have "extract_fio ex_council title_text = fio_sentinel" by simp
  with shapes eq ex ex_council_candidates show ?thesis by blast
qed

text \<open>
  The text ``Prezident Aleksandr Lukashenko naznachil Ivan Ivanov ministrom'' has two
  candidates, both of the shape of a name; the first has the word Prezident, the second
  has no excluded word and is the result.
\<close>

theorem extract_fio_first_surviving_witness:
  "findall_group (=) FIO_PATTERN ex_decision = [ex_head_of_state, ex_name] \<and>
   fio_shape ex_head_of_state \<and> fio_shape ex_name \<and>
   has_excluded ex_head_of_state \<and> \<not> has_excluded ex_name \<and>
   extract_fio ex_decision [] = ex_name"
proof -
  note main = extract_fio_first_surviving [of ex_decision "[]"]
  have c: "findall_group (=) FIO_PATTERN ex_decision = [ex_head_of_state, ex_name]"
    by (rule ex_decision_candidates)
  from main have "\<forall>c \<in> set (findall_group (=) FIO_PATTERN ex_decision). fio_shape c"
    by (rule conjunct1)
  with c have s: "fio_shape ex_head_of_state" "fio_shape ex_name" by simp_all
  have e1: "has_excluded ex_head_of_state" by (simp add: run)
  have e2: "\<not> has_excluded ex_name" by (simp add: run)
  from main have "extract_fio ex_decision [] =
     (case filter (\<lambda>c. \<not> has_excluded c) (findall_group (=) FIO_PATTERN ex_decision) of
        [] \<Rightarrow> fio_sentinel
      | c # _ \<Rightarrow> c)"
    by (elim conjE)
  with c e1 e2 have r: "extract_fio ex_decision [] = ex_name" by simp
  from c s e1 e2 r show ?thesis by (intro conjI)
qed

subsection \<open>The position\<close>

lemma rstrip_append:
  "rstrip (w @ r) = (if list_all is_space r then rstrip w else w @ rstrip r)"
  by (simp add: rstrip_def dropWhile_append list_all_iff)

lemma rstrip_no_space_end: "w = [] \<or> \<not> is_space (last w) \<Longrightarrow> rstrip w = w"
  by (cases "rev w") (auto simp: rstrip_def last_rev [symmetric] hd_rev)

lemma rstrip_hd:
  assumes "x \<noteq> []" and "\<not> is_space (hd x)"
  shows "rstrip x \<noteq> [] \<and> hd (rstrip x) = hd x"
proof -
  from assms obtain c x' where x: "x = [c] @ x'" and c: "\<not> is_space c" by (cases x) auto
  from c have "rstrip [c] = [c]" by (simp add: rstrip_def)
  then show ?thesis unfolding x rstrip_append by simp
qed

lemma list_all_hd: "list_all P xs \<Longrightarrow> xs \<noteq> [] \<Longrightarrow> P (hd xs)"
  by (cases xs) simp_all

lemma collapse_ws_no_space:
  "list_all (\<lambda>x. \<not> is_space x) w \<Longrightarrow> collapse_ws (w @ t) = w @ collapse_ws t"
  by (induction w) simp_all

lemma collapse_ws_spaces:
  assumes "s \<noteq> []" and "list_all is_space s" and "t = [] \<or> \<not> is_space (hd t)"
  shows "collapse_ws (s @ t) = sp # collapse_ws t"
proof -
  from assms(1,2) obtain c s' where s: "s = c # s'" and c: "is_space c"
    and s': "\<forall>x \<in> set s'. is_space x"
    by (cases s) (auto simp: list_all_iff)
  from s' assms(3) have "dropWhile is_space (s' @ t) = t"
    by (cases t) (simp_all add: dropWhile_append)
  with s c show ?thesis by simp
qed

lemma words_ws_spaces: "list_all is_space r \<Longrightarrow> words_ws r = []"
  using words_ws_leading_space [of r "[]"] by (simp add: words_ws_Nil)

lemma words_ws_not_spaces: "\<not> list_all is_space r \<Longrightarrow> words_ws r \<noteq> []"
proof -
  assume "\<not> list_all is_space r"
  then have "dropWhile is_space r \<noteq> []" by (simp add: list_all_iff dropWhile_eq_Nil_conv)
  then show ?thesis by (subst words_ws.simps) (simp split: list.splits)
qed

text \<open>
  Stripping a text and collapsing its runs of white space gives its words joined by single
  spaces: \<^verbatim>\<open>re.sub(r'\s+', ' ', s.strip())\<close> is \<^verbatim>\<open>' '.join(s.split())\<close>.
\<close>

lemma collapse_strip_join: "collapse_ws (strip s) = join [sp] (words_ws s)"
proof (induction s rule: words_ws.induct)
  case (1 s)
  have st: "strip s = rstrip (dropWhile is_space s)" by (simp add: strip_def lstrip_def)
  show ?case
  proof (cases "dropWhile is_space s")
    case Nil
    have "strip s = []" unfolding st Nil by (simp add: rstrip_def)
    moreover have "words_ws s = []" unfolding words_ws.simps [of s] Nil by simp
    ultimately show ?thesis by simp
  next
    case (Cons c t)
    let ?w = "c # takeWhile (\<lambda>x. \<not> is_space x) t"
    let ?r = "dropWhile (\<lambda>x. \<not> is_space x) t"
    from Cons have c: "\<not> is_space c" using hd_dropWhile [of is_space s] by auto
    have w: "list_all (\<lambda>x. \<not> is_space x) ?w"
      using c by (auto simp: list_all_iff dest: set_takeWhileD)
    then have lw: "\<not> is_space (last ?w)" by (auto simp: list_all_iff)
    have split: "c # t = ?w @ ?r" by simp
    have words: "words_ws s = ?w # words_ws ?r"
      using Cons c by (simp add: words_ws.simps [of s])
    have r: "?r = [] \<or> is_space (hd ?r)" using hd_dropWhile [of "\<lambda>x. \<not> is_space x" t] by auto
    note ih = 1 [OF Cons]
    show ?thesis
    proof (cases "list_all is_space ?r")
      case True
      from lw have "rstrip ?w = ?w" by (intro rstrip_no_space_end disjI2)
      with True have rw: "rstrip (?w @ ?r) = ?w" by (simp only: rstrip_append if_True)
      have "collapse_ws (strip s) = collapse_ws (rstrip (?w @ ?r))" by (simp only: st Cons split)
      also have "\<dots> = collapse_ws (?w @ [])" by (simp only: rw append_Nil2)
      also have "\<dots> = ?w @ collapse_ws []" using w by (rule collapse_ws_no_space)
      finally have "collapse_ws (strip s) = ?w" by simp
      with words words_ws_spaces [OF True] show ?thesis by simp
    next
      case False
      let ?sps = "takeWhile is_space ?r"
      let ?r2 = "dropWhile is_space ?r"
      from False have r2: "?r2 \<noteq> []" by (simp add: list_all_iff dropWhile_eq_Nil_conv)
      then have hd2: "\<not> is_space (hd ?r2)" by (rule hd_dropWhile)
      have rne: "?r \<noteq> []"
      proof
        assume e: "?r = []"
        have "list_all is_space ?r" unfolding e by simp
        with False show False ..
      qed
      with r have hr: "is_space (hd ?r)" by blast
      have sps: "?sps \<noteq> []"
      proof (cases ?r)
        case Nil
        with rne show ?thesis by blast
      next
        case (Cons a as)
        with hr show ?thesis by (simp only: list.sel takeWhile.simps if_True) simp
      qed
      have spsall: "list_all is_space ?sps" by (auto simp: list_all_iff dest: set_takeWhileD)
      have nall2: "\<not> list_all is_space ?r2"
        using list_all_hd [of is_space ?r2] r2 hd2 by blast
      have "rstrip ?r = rstrip (?sps @ ?r2)" by simp
      also have "\<dots> = ?sps @ rstrip ?r2" using nall2 by (simp only: rstrip_append if_False)
      finally have rr: "rstrip ?r = ?sps @ rstrip ?r2" .
      have str: "strip ?r = rstrip ?r2" by (simp add: strip_def lstrip_def)
      from rstrip_hd [OF r2 hd2] hd2 have h: "rstrip ?r2 = [] \<or> \<not> is_space (hd (rstrip ?r2))" by simp
      have "collapse_ws (strip s) = collapse_ws (?w @ rstrip ?r)"
        using False by (simp only: st Cons split rstrip_append if_False)
      also have "\<dots> = ?w @ collapse_ws (rstrip ?r)" using w by (rule collapse_ws_no_space)
      also have "\<dots> = ?w @ sp # collapse_ws (rstrip ?r2)"
        unfolding rr using collapse_ws_spaces [OF sps spsall h] by simp
      also have "\<dots> = ?w @ sp # join [sp] (words_ws ?r)" using ih str by simp
      finally have "collapse_ws (strip s) = ?w @ sp # join [sp] (words_ws ?r)" .
      moreover from words_ws_not_spaces [OF False] obtain y ys where "words_ws ?r = y # ys"
        by (cases "words_ws ?r") auto
      ultimately show ?thesis using words by simp
    qed
  qed
qed

lemma rstrip_chars_split:
  "\<exists>t. s = rstrip_chars cs s @ t \<and> list_all (\<lambda>c. c \<in> set cs) t"
proof -
  let ?t = "rev (takeWhile (\<lambda>c. c \<in> set cs) (rev s))"
  have "rev (takeWhile (\<lambda>c. c \<in> set cs) (rev s) @ dropWhile (\<lambda>c. c \<in> set cs) (rev s)) = s"
    by simp
  then have "rev (dropWhile (\<lambda>c. c \<in> set cs) (rev s)) @ ?t = s" by (simp only: rev_append)
  then have "s = rstrip_chars cs s @ ?t" by (simp only: rstrip_chars_def)
  moreover have "list_all (\<lambda>c. c \<in> set cs) ?t" by (auto simp: list_all_iff dest: set_takeWhileD)
  ultimately show ?thesis by blast
qed

lemma rstrip_chars_last:
  "rstrip_chars cs s \<noteq> [] \<Longrightarrow> last (rstrip_chars cs s) \<notin> set cs"
  using hd_dropWhile [of "\<lambda>c. c \<in> set cs" "rev s"]
  by (simp add: rstrip_chars_def last_rev)

lemma position_loop_step:
  "position_loop L full_text (p # ps) =
     (case first_match L p full_text of
        None \<Rightarrow> position_loop L full_text ps
      | Some m \<Rightarrow> if length (clean_position m) > 5 then Some (clean_position m)
                  else position_loop L full_text ps)"
  by (simp add: first_match_def Let_def split: list.splits)

lemma position_loop_first:
  assumes "i < length ps" and "\<forall>j<i. pattern_fails L full_text (ps ! j)"
    and "first_match L (ps ! i) full_text = Some m" and "5 < length (clean_position m)"
  shows "position_loop L full_text ps = Some (clean_position m)"
  using assms
proof (induction ps arbitrary: i)
  case Nil
  then show ?case by simp
next
  case (Cons p ps)
  show ?case
  proof (cases i)
    case 0
    with Cons.prems show ?thesis by (simp add: position_loop_step del: position_loop.simps(2))
  next
    case (Suc k)
    with Cons.prems have "pattern_fails L full_text p" by auto
    moreover from Suc Cons.prems have "position_loop L full_text ps = Some (clean_position m)"
      by (intro Cons.IH [of k]) auto
    ultimately show ?thesis
      by (auto simp: position_loop_step pattern_fails_def simp del: position_loop.simps(2)
               split: option.splits)
  qed
qed

lemma position_loop_all_fail:
  assumes "\<forall>p \<in> set ps. pattern_fails L full_text p"
  shows "position_loop L full_text ps = None"
  using assms
  by (induction ps)
     (auto simp: position_loop_step pattern_fails_def simp del: position_loop.simps(2)
           split: option.splits)

lemma keyword_loop_step:
  "keyword_loop L full_text (k # ks) =
     (case first_match L (keyword_pattern k) full_text of
        None \<Rightarrow> keyword_loop L full_text ks
      | Some m \<Rightarrow> Some (strip m))"
  by (simp add: first_match_def split: list.splits)

lemma keyword_loop_first:
  assumes "k < length ks"
    and "\<forall>j<k. first_match L (keyword_pattern (ks ! j)) full_text = None"
    and "first_match L (keyword_pattern (ks ! k)) full_text = Some m"
  shows "keyword_loop L full_text ks = Some (strip m)"
  using assms
proof (induction ks arbitrary: k)
  case Nil
  then show ?case by simp
next
  case (Cons kw ks)
  show ?case
  proof (cases k)
    case 0
    with Cons.prems show ?thesis by (simp add: keyword_loop_step del: keyword_loop.simps(2))
  next
    case (Suc n)
    with Cons.prems have "first_match L (keyword_pattern kw) full_text = None" by auto
    moreover from Suc Cons.prems have "keyword_loop L full_text ks = Some (strip m)"
      by (intro Cons.IH [of n]) auto
    ultimately show ?thesis by (simp add: keyword_loop_step del: keyword_loop.simps(2))
  qed
qed

lemma keyword_loop_none:
  assumes "\<forall>kw \<in> set ks. first_match L (keyword_pattern kw) full_text = None"
  shows "keyword_loop L full_text ks = None"
  using assms
  by (induction ks) (auto simp: keyword_loop_step simp del: keyword_loop.simps(2))

text \<open>The texts that a literal and that \<^verbatim>\<open>[^.]*\<close> can match.\<close>

lemma lang_lit: "w \<in> lang ceq (lit ks) \<longleftrightarrow> list_all2 ceq ks w"
proof (induction ks arbitrary: w rule: lit.induct)
  case 1
  show ?case by auto
next
  case (2 k)
  show ?case by (auto simp: list_all2_Cons1)
next
  case (3 k v va)
  show ?case
  proof
    assume "w \<in> lang ceq (lit (k # v # va))"
    then obtain c u where "w = [c] @ u" "ceq k c" "u \<in> lang ceq (lit (v # va))" by auto
    with 3 show "list_all2 ceq (k # v # va) w" by simp
  next
    assume "list_all2 ceq (k # v # va) w"
    then obtain c u where w: "w = c # u" and c: "ceq k c" and u: "list_all2 ceq (v # va) u"
      by (auto simp: list_all2_Cons1)
    from u 3 have "u \<in> lang ceq (lit (v # va))" by simp
    with w c have "w = [c] @ u \<and> [c] \<in> lang ceq (Lit k) \<and> u \<in> lang ceq (lit (v # va))" by simp
    then show "w \<in> lang ceq (lit (k # v # va))" by (simp del: append.simps) blast
  qed
qed

lemma lang_Star_Cls:
  assumes "w \<in> lang ceq (Star (Cls P))"
  shows "list_all P w"
proof -
  from assms obtain ws where w: "w = concat ws" and sub: "set ws \<subseteq> lang ceq (Cls P)"
    unfolding lang.simps(7) by auto
  from sub have "set ws \<subseteq> {[c] | c. P c}" by simp
  from concat_singletons [OF this] w show ?thesis by simp
qed

lemma first_match_lang:
  assumes "first_match L (Grp 1 r) full_text = Some m"
  shows "m \<in> lang (py_ci_eq L) r"
proof -
  from assms have "m \<in> set (findall_group (py_ci_eq L) (Grp 1 r) full_text)"
    by (auto simp: first_match_def split: list.splits)
  then show ?thesis by (rule findall_group_lang)
qed

text \<open>
  A fragment found for a keyword has no full stop before or after an occurrence of the
  keyword in some letter case.
\<close>

lemma keyword_fragment:
  assumes "first_match L (keyword_pattern keyword) full_text = Some m"
  shows "\<exists>a k b. m = a @ k @ b \<and> list_all not_dot a \<and> list_all2 (py_ci_eq L) keyword k \<and>
           list_all not_dot b"
proof -
  from first_match_lang [OF assms [unfolded keyword_pattern_def]]
  obtain a t where m: "m = a @ t" and a: "a \<in> lang (py_ci_eq L) (Star (Cls not_dot))"
    and t: "t \<in> lang (py_ci_eq L) (Seq (lit keyword) (Star (Cls not_dot)))"
    by auto
  from t obtain k b where tk: "t = k @ b" and k: "k \<in> lang (py_ci_eq L) (lit keyword)"
    and b: "b \<in> lang (py_ci_eq L) (Star (Cls not_dot))"
    by auto
  from m tk lang_Star_Cls [OF a] lang_Star_Cls [OF b] k show ?thesis
    by (auto simp: lang_lit)
qed

lemma ex_two_sentences_patterns:
  "list_all (pattern_fails sample_lib ex_two_sentences) POSITION_PATTERNS"
  by (simp add: run findall_group_def findall.simps)

lemma ex_two_sentences_keywords:
  "first_match sample_lib (keyword_pattern (position_keywords ! 0)) ex_two_sentences = None \<and>
   first_match sample_lib (keyword_pattern (position_keywords ! 1)) ex_two_sentences =
     Some (sp # ex_she_minister)"
  by (simp add: run findall_group_def findall.simps)

lemma ex_two_sentences_position:
  "extract_position sample_lib ex_two_sentences [] = ex_she_minister"
  by (simp add: run findall_group_def findall.simps)

text \<open>
  C7, as stated, fails on the text ``On direktor. Ona ministr''. No position pattern
  matches. The first fragment of the text that contains a keyword is ``On direktor'', but
  \<open>extract_position\<close> returns ``Ona ministr'': the keyword ministr comes before the keyword
  direktor in \<^verbatim>\<open>position_keywords\<close>, and the keywords are tried in that order.
\<close>

theorem extract_position_counterexample:
  "position_loop sample_lib ex_two_sentences POSITION_PATTERNS = None \<and>
   claimed_fallback sample_lib ex_two_sentences = Some ex_he_director \<and>
   extract_position sample_lib ex_two_sentences [] = ex_she_minister \<and>
   ex_she_minister \<noteq> ex_he_director"
proof -
  have "position_loop sample_lib ex_two_sentences POSITION_PATTERNS = None"
    using ex_two_sentences_patterns by (intro position_loop_all_fail) (simp add: list_all_iff)
  moreover have "claimed_fallback sample_lib ex_two_sentences = Some ex_he_director"
    by (simp add: run)
  moreover have "ex_she_minister \<noteq> ex_he_director"
    by (simp add: run)
  ultimately show ?thesis using ex_two_sentences_position by (intro conjI)
qed

text \<open>
  C7, amended. \<open>extract_position\<close> tries the position patterns in their order; of each
  pattern it looks at the first match only, and the first pattern whose first match has a
  cleaned form of more than five characters gives the result, that cleaned form. When every
  pattern fails it tries the keywords in the order of \<^verbatim>\<open>position_keywords\<close>: the first keyword
  that has a match gives the result, the first fragment without a full stop around an
  occurrence of that keyword (in any letter case), stripped. When no keyword has a match
  the result is the sentinel. The cleaned form of a match is this: the words of the match
  (its maximal runs of characters that are not white space) joined by single spaces, which
  is the match stripped and with every run of white space collapsed to one space, and then
  without its trailing run of the characters \<^verbatim>\<open>.,;:\<close>. So the cleaned form never ends with one
  of these four characters; a space that stood before them stays.
\<close>

theorem extract_position_order:
  "(i < length POSITION_PATTERNS \<and>
    (\<forall>j<i. pattern_fails L full_text (POSITION_PATTERNS ! j)) \<and>
    first_match L (POSITION_PATTERNS ! i) full_text = Some m \<and>
    5 < length (clean_position m) \<longrightarrow>
      extract_position L full_text title_text = clean_position m) \<and>
   ((\<forall>p \<in> set POSITION_PATTERNS. pattern_fails L full_text p) \<and>
    k < length position_keywords \<and>
    (\<forall>j<k. first_match L (keyword_pattern (position_keywords ! j)) full_text = None) \<and>
    first_match L (keyword_pattern (position_keywords ! k)) full_text = Some m \<longrightarrow>
      extract_position L full_text title_text = strip m \<and>
      (\<exists>a occ b. m = a @ occ @ b \<and> list_all not_dot a \<and> list_all not_dot b \<and>
         list_all2 (py_ci_eq L) (position_keywords ! k) occ)) \<and>
   ((\<forall>p \<in> set POSITION_PATTERNS. pattern_fails L full_text p) \<and>
    (\<forall>kw \<in> set position_keywords. first_match L (keyword_pattern kw) full_text = None) \<longrightarrow>
      extract_position L full_text title_text = position_sentinel) \<and>
   (\<exists>t. join [sp] (words_ws m) = clean_position m @ t \<and>
        list_all (\<lambda>c. c \<in> {0x2E, 0x2C, 0x3B, 0x3A}) t) \<and>
   (clean_position m \<noteq> [] \<longrightarrow> last (clean_position m) \<notin> {0x2E, 0x2C, 0x3B, 0x3A})"
proof (intro conjI impI)
  assume a: "i < length POSITION_PATTERNS \<and>
    (\<forall>j<i. pattern_fails L full_text (POSITION_PATTERNS ! j)) \<and>
    first_match L (POSITION_PATTERNS ! i) full_text = Some m \<and>
    5 < length (clean_position m)"
  then have "position_loop L full_text POSITION_PATTERNS = Some (clean_position m)"
    by (intro position_loop_first [of i]) blast+
  then show "extract_position L full_text title_text = clean_position m"
    by (simp add: extract_position_def)
next
  assume a: "(\<forall>p \<in> set POSITION_PATTERNS. pattern_fails L full_text p) \<and>
    k < length position_keywords \<and>
    (\<forall>j<k. first_match L (keyword_pattern (position_keywords ! j)) full_text = None) \<and>
    first_match L (keyword_pattern (position_keywords ! k)) full_text = Some m"
  then have p: "position_loop L full_text POSITION_PATTERNS = None"
    by (intro position_loop_all_fail) blast
  from a have "keyword_loop L full_text position_keywords = Some (strip m)"
    by (intro keyword_loop_first [of k]) blast+
  with p show "extract_position L full_text title_text = strip m"
    by (simp add: extract_position_def)
  from a have "first_match L (keyword_pattern (position_keywords ! k)) full_text = Some m"
    by blast
  from keyword_fragment [OF this]
  show "\<exists>a occ b. m = a @ occ @ b \<and> list_all not_dot a \<and> list_all not_dot b \<and>
         list_all2 (py_ci_eq L) (position_keywords ! k) occ"
    by blast
next
  assume a: "(\<forall>p \<in> set POSITION_PATTERNS. pattern_fails L full_text p) \<and>
    (\<forall>kw \<in> set position_keywords. first_match L (keyword_pattern kw) full_text = None)"
  then have "position_loop L full_text POSITION_PATTERNS = None"
    by (intro position_loop_all_fail) blast
  moreover from a have "keyword_loop L full_text position_keywords = None"
    by (intro keyword_loop_none) blast
  ultimately show "extract_position L full_text title_text = position_sentinel"
    by (simp add: extract_position_def)
next
  from rstrip_chars_split [of "collapse_ws (strip m)" "[0x2E, 0x2C, 0x3B, 0x3A]"]
  show "\<exists>t. join [sp] (words_ws m) = clean_position m @ t \<and>
        list_all (\<lambda>c. c \<in> {0x2E, 0x2C, 0x3B, 0x3A}) t"
    by (simp add: clean_position_def collapse_strip_join)
next
  assume ne: "clean_position m \<noteq> []"
  show "last (clean_position m) \<notin> {0x2E, 0x2C, 0x3B, 0x3A}"
    using rstrip_chars_last [of "[0x2E, 0x2C, 0x3B, 0x3A]" "collapse_ws (strip m)"] ne
    by (simp add: clean_position_def)
qed

text \<open>
  On ``naznachen ministrom'' the first pattern has no match and the second gives
  ``ministrom''. On ``na dolzhnost' sud'ej   suda ;:'' the first pattern gives the phrase
  ``sud'ej   suda ;:'', of the three words ``sud'ej'', ``suda'' and ``;:''; the cleaned form is
  ``sud'ej suda '', with one space between the words and, at its end, the space that stood
  before the punctuation. On ``On direktor. Ona ministr'' every pattern fails, the first
  keyword has no match and the second, ministr, gives ``Ona ministr''. On ``Da'' nothing
  matches and the result is the sentinel.
\<close>

theorem extract_position_order_witness:
  "pattern_fails sample_lib ex_appointed (POSITION_PATTERNS ! 0) \<and>
   first_match sample_lib (POSITION_PATTERNS ! 1) ex_appointed = Some ex_minister \<and>
   5 < length (clean_position ex_minister) \<and>
   extract_position sample_lib ex_appointed [] = ex_minister \<and>
   first_match sample_lib (POSITION_PATTERNS ! 0) ex_to_the_post = Some ex_judge_phrase \<and>
   words_ws ex_judge_phrase = ex_judge_words \<and>
   clean_position ex_judge_phrase = ex_judge \<and>
   join [sp] (words_ws ex_judge_phrase) = clean_position ex_judge_phrase @ [0x3B, 0x3A] \<and>
   last (clean_position ex_judge_phrase) \<notin> {0x2E, 0x2C, 0x3B, 0x3A} \<and>
   last (clean_position ex_judge_phrase) = sp \<and>
   5 < length (clean_position ex_judge_phrase) \<and>
   extract_position sample_lib ex_to_the_post [] = ex_judge \<and>
   list_all (pattern_fails sample_lib ex_two_sentences) POSITION_PATTERNS \<and>
   first_match sample_lib (keyword_pattern (position_keywords ! 0)) ex_two_sentences = None \<and>
   first_match sample_lib (keyword_pattern (position_keywords ! 1)) ex_two_sentences =
     Some (sp # ex_she_minister) \<and>
   extract_position sample_lib ex_two_sentences [] = ex_she_minister \<and>
   list_all (pattern_fails sample_lib ex_yes) POSITION_PATTERNS \<and>
   list_all (\<lambda>kw. first_match sample_lib (keyword_pattern kw) ex_yes = None) position_keywords \<and>
   extract_position sample_lib ex_yes [] = position_sentinel"
proof -
  note main = extract_position_order
  have a1: "pattern_fails sample_lib ex_appointed (POSITION_PATTERNS ! 0) \<and>
      first_match sample_lib (POSITION_PATTERNS ! 1) ex_appointed = Some ex_minister \<and>
      5 < length (clean_position ex_minister)"
    by (simp add: run findall_group_def findall.simps)
  have cl: "clean_position ex_minister = ex_minister" by (simp add: run)
  have "extract_position sample_lib ex_appointed [] = clean_position ex_minister"
    by (rule main [where i = 1, THEN conjunct1, THEN mp]) (use a1 in \<open>simp add: POSITION_PATTERNS_def\<close>)
  with cl have a2: "extract_position sample_lib ex_appointed [] = ex_minister" by simp
  have j1: "first_match sample_lib (POSITION_PATTERNS ! 0) ex_to_the_post = Some ex_judge_phrase"
    by (simp add: run findall_group_def findall.simps)
  have j2: "words_ws ex_judge_phrase = ex_judge_words"
    by (simp add: run words_ws.simps)
  have j3: "clean_position ex_judge_phrase = ex_judge" by (simp add: run)
  have j4: "5 < length (clean_position ex_judge_phrase)" by (simp add: j3) (simp add: run)
  from main [where m = ex_judge_phrase, THEN conjunct2, THEN conjunct2, THEN conjunct2, THEN conjunct1]
  obtain t where t: "join [sp] (words_ws ex_judge_phrase) = clean_position ex_judge_phrase @ t"
    by blast
  have "join [sp] (words_ws ex_judge_phrase) = ex_judge @ [0x3B, 0x3A]"
    by (simp add: j2) (simp add: run)
  with t have j5: "join [sp] (words_ws ex_judge_phrase) = clean_position ex_judge_phrase @ [0x3B, 0x3A]"
    by (simp add: j3)
  have ne: "clean_position ex_judge_phrase \<noteq> []" by (simp add: j3) (simp add: run)
  have j6: "last (clean_position ex_judge_phrase) \<notin> {0x2E, 0x2C, 0x3B, 0x3A}"
    by (rule main [where m = ex_judge_phrase, THEN conjunct2, THEN conjunct2, THEN conjunct2,
          THEN conjunct2, THEN mp]) (rule ne)
  have j7: "last (clean_position ex_judge_phrase) = sp" by (simp add: j3) (simp add: run)
  have "extract_position sample_lib ex_to_the_post [] = clean_position ex_judge_phrase"
    by (rule main [where i = 0, THEN conjunct1, THEN mp]) (use j1 j4 in \<open>simp add: POSITION_PATTERNS_def\<close>)
  with j3 have j8: "extract_position sample_lib ex_to_the_post [] = ex_judge" by simp
  note b1 = ex_two_sentences_patterns
  note b2 = ex_two_sentences_keywords
  have "extract_position sample_lib ex_two_sentences [] = strip (sp # ex_she_minister)"
    by (rule main [where k = 1, THEN conjunct2, THEN conjunct1, THEN mp, THEN conjunct1])
       (use b1 b2 in \<open>simp add: list_all_iff position_keywords_def\<close>)
  moreover have "strip (sp # ex_she_minister) = ex_she_minister" by (simp add: run)
  ultimately have b3: "extract_position sample_lib ex_two_sentences [] = ex_she_minister" by simp
  have c1: "list_all (pattern_fails sample_lib ex_yes) POSITION_PATTERNS"
    by (simp add: run findall_group_def findall.simps)
  have c2: "list_all (\<lambda>kw. first_match sample_lib (keyword_pattern kw) ex_yes = None) position_keywords"
    by (simp add: run findall_group_def findall.simps)
  have c3: "extract_position sample_lib ex_yes [] = position_sentinel"
    by (rule main [THEN conjunct2, THEN conjunct2, THEN conjunct1, THEN mp])
       (use c1 c2 in \<open>simp add: list_all_iff\<close>)
  from a1 a2 j1 j2 j3 j5 j6 j7 j4 j8 b1 b2 b3 c1 c2 c3 show ?thesis by (intro conjI) blast+
qed

text \<open>
  Of each pattern the first match alone counts. On ``naznachen ya. naznachen poslom'' the
  second pattern matches ``ya'' and ``poslom''; the first is too short and the second, of
  six characters, is not looked at: no other pattern and no keyword matches, and the
  result is the sentinel.
\<close>

lemma extract_position_first_match_only:
  "findall_group (py_ci_eq sample_lib) (POSITION_PATTERNS ! 1) ex_twice_appointed =
     [[c_ya], [c_p, c_o, c_s, c_l, c_o, c_m]] \<and>
   5 < length (clean_position [c_p, c_o, c_s, c_l, c_o, c_m]) \<and>
   extract_position sample_lib ex_twice_appointed [] = position_sentinel"
  by (simp add: run findall_group_def findall.simps)

end
